theory Spec2Isabelle
  imports Complex_Main
begin

section \<open>NumPy arrays over the reals\<close>

text \<open>
  The masking engine of \<^verbatim>\<open>helpers/masking_methods.py\<close> computes with NumPy arrays of
  64-bit floats. The embedding keeps the arrays (a shape and the elements in row-major
  order), the broadcasting rule and every exception the Python raises, and replaces the
  floats by real numbers: \<open>+\<close>, \<open>*\<close>, \<open>/\<close>, \<open>log\<close>, \<open>exp\<close> and \<open>**\<close> are the exact
  operations, so rounding, overflow, \<open>inf\<close> and \<open>nan\<close> are not represented. The places
  where NumPy would produce \<open>inf\<close> or \<open>nan\<close> (a division by zero, the logarithm of a
  number that is not positive, a negative base under a fractional exponent, the mean of
  an empty array) lie outside the model; magnitude spectrograms are non-negative and
  every denominator of the source is floored by the machine epsilon, so they are not
  reached on the inputs the theorems speak about. Output printed to the console is not
  modelled.
\<close>

datatype 'a array = NDArray (shape: "nat list") (elems: "'a list")

type_synonym ndarray = "real array"

text \<open>An array is well formed when it holds as many elements as its shape says.\<close>

definition wf :: "'a array \<Rightarrow> bool" where
  "wf a \<longleftrightarrow> length (elems a) = prod_list (shape a)"

text \<open>A Python float or a NumPy scalar is the array of shape \<open>()\<close>.\<close>

definition scalar :: "'a \<Rightarrow> 'a array" where
  "scalar x = NDArray [] [x]"

text \<open>The attribute \<^verbatim>\<open>.size\<close>.\<close>

definition size_nd :: "'a array \<Rightarrow> nat" where
  "size_nd a = prod_list (shape a)"

text \<open>
  The exceptions of the Python. The two \<^verbatim>\<open>ValueError\<close>s the source raises itself carry
  their messages; \<open>BroadcastError\<close> is the \<^verbatim>\<open>ValueError\<close> NumPy raises for operands that
  cannot be broadcast together. \<open>Unmodelled\<close> is no Python exception: it marks an input
  on which NumPy's behaviour is outside this model (a ragged list, which becomes an array
  of objects, fancy indexing of an array that is not two-dimensional, and the
  multichannel filter on arrays that are not three-dimensional of matching extents).
\<close>

datatype error =
    ValueError string
  | BroadcastError
  | AttributeError
  | TypeError
  | IndexError
  | NameError
  | ZeroDivisionError
  | Unmodelled

text \<open>
  A field of the engine holds either an array or a Python list of arrays: the defaults of
  the phase arguments, the initial mask and the initial output are the empty list
  \<^verbatim>\<open>[]\<close>, and the residual may be \<open>a list of 2D ndarrays\<close>.
\<close>

datatype 'a pyobj = PyList "'a array list" | ND "'a array"

type_synonym pyval = "real pyobj"

text \<open>
  \<^verbatim>\<open>np.asarray\<close>, which NumPy applies to a list operand: the arrays of the list are
  stacked along a new first axis.
\<close>

definition as_array :: "'a pyobj \<Rightarrow> error + 'a array" where
  "as_array v =
     (case v of
        ND a \<Rightarrow> Inr a
      | PyList [] \<Rightarrow> Inr (NDArray [0] [])
      | PyList (x # xs) \<Rightarrow>
          if \<forall>y \<in> set xs. shape y = shape x
          then Inr (NDArray (Suc (length xs) # shape x) (concat (map elems (x # xs))))
          else Inl Unmodelled)"

subsection \<open>Broadcasting\<close>

text \<open>
  Two shapes are aligned at their last axes; two extents are compatible when they are
  equal or one of them is 1. \<open>bshape_rev\<close> works on the reversed shapes.
\<close>

fun bshape_rev :: "nat list \<Rightarrow> nat list \<Rightarrow> nat list option" where
  "bshape_rev [] ys = Some ys"
| "bshape_rev (x # xs) [] = Some (x # xs)"
| "bshape_rev (x # xs) (y # ys) =
     (if x = y \<or> y = 1 then map_option (Cons x) (bshape_rev xs ys)
      else if x = 1 then map_option (Cons y) (bshape_rev xs ys)
      else None)"

definition bshape :: "nat list \<Rightarrow> nat list \<Rightarrow> nat list option" where
  "bshape s t = map_option rev (bshape_rev (rev s) (rev t))"

text \<open>\<open>chop n k xs\<close> cuts \<open>xs\<close> into \<open>k\<close> consecutive blocks of \<open>n\<close> elements.\<close>

fun chop :: "nat \<Rightarrow> nat \<Rightarrow> 'a list \<Rightarrow> 'a list list" where
  "chop n 0 xs = []"
| "chop n (Suc k) xs = take n xs # chop n k (drop n xs)"

text \<open>
  \<open>expand t s xs\<close> repeats the elements \<open>xs\<close> of an array of shape \<open>s\<close> to the shape \<open>t\<close>
  of the same length, where every extent of \<open>s\<close> is the extent of \<open>t\<close> or 1.
\<close>

fun expand :: "nat list \<Rightarrow> nat list \<Rightarrow> 'a list \<Rightarrow> 'a list" where
  "expand (t # ts) (s # ss) xs =
     (if s = t then concat (map (expand ts ss) (chop (prod_list ss) s xs))
      else concat (replicate t (expand ts ss xs)))"
| "expand _ _ xs = xs"

definition broadcast_to :: "nat list \<Rightarrow> 'a array \<Rightarrow> 'a list" where
  "broadcast_to t a =
     expand t (replicate (length t - length (shape a)) 1 @ shape a) (elems a)"

text \<open>An elementwise binary operation of NumPy (\<open>+\<close>, \<open>-\<close>, \<open>*\<close>, \<open>/\<close>, \<open>**\<close>).\<close>

definition bop :: "('a \<Rightarrow> 'a \<Rightarrow> 'a) \<Rightarrow> 'a array \<Rightarrow> 'a array \<Rightarrow> error + 'a array" where
  "bop f a b =
     (case bshape (shape a) (shape b) of
        None \<Rightarrow> Inl BroadcastError
      | Some t \<Rightarrow> Inr (NDArray t (map2 f (broadcast_to t a) (broadcast_to t b))))"

text \<open>An elementwise unary operation (\<^verbatim>\<open>np.log\<close>, \<^verbatim>\<open>np.exp\<close>, \<^verbatim>\<open>np.abs\<close>, ...).\<close>

definition uop :: "('a \<Rightarrow> 'a) \<Rightarrow> 'a array \<Rightarrow> 'a array" where
  "uop f a = NDArray (shape a) (map f (elems a))"

text \<open>
  The power \<^verbatim>\<open>x ** a\<close> of two floats, for \<open>x \<ge> 0\<close>: \<open>x ** 0\<close> is 1 also for \<open>x = 0\<close>,
  and \<open>0 ** a\<close> is 0 for a positive \<open>a\<close>.
\<close>

definition np_power :: "real \<Rightarrow> real \<Rightarrow> real" where
  "np_power x a = (if a = 0 then 1 else x powr a)"

text \<open>\<^verbatim>\<open>np.mean\<close> over all elements.\<close>

definition np_mean :: "ndarray \<Rightarrow> real" where
  "np_mean a = sum_list (elems a) / real (length (elems a))"

text \<open>
  An operation on two operands one of which may be a Python list: NumPy converts the
  list first. \<open>bind\<close> passes the first exception on.
\<close>

definition bind :: "error + 'a \<Rightarrow> ('a \<Rightarrow> error + 'b) \<Rightarrow> error + 'b" where
  "bind m f = (case m of Inl e \<Rightarrow> Inl e | Inr x \<Rightarrow> f x)"

definition bop_r :: "('a \<Rightarrow> 'a \<Rightarrow> 'a) \<Rightarrow> 'a array \<Rightarrow> 'a pyobj \<Rightarrow> error + 'a array" where
  "bop_r f a v = bind (as_array v) (\<lambda>b. bop f a b)"

definition bop_l :: "('a \<Rightarrow> 'a \<Rightarrow> 'a) \<Rightarrow> 'a pyobj \<Rightarrow> 'a array \<Rightarrow> error + 'a array" where
  "bop_l f v b = bind (as_array v) (\<lambda>a. bop f a b)"

section \<open>The masking engine\<close>

text \<open>
  The class \<^verbatim>\<open>FrequencyMasking\<close>. Its attributes are the fields of a record. The
  mixture and the target are arrays; the residual is an array or a list of arrays; the
  phases, the mask and the output start as the empty list. The exponent \<open>alpha\<close> is a
  Python float (shape \<open>()\<close>) until \<^verbatim>\<open>optAlpha\<close> stores a vector. The attribute
  \<^verbatim>\<open>_closs\<close> does not exist before \<^verbatim>\<open>optAlpha\<close> has run.
\<close>

record 'a masking =
  mX :: "'a array"
  eps :: 'a
  sTarget :: "'a array"
  nResidual :: "'a pyobj"
  pTarget :: "'a pyobj"
  pY :: "'a pyobj"
  mask_arr :: "'a pyobj"
  Out :: "'a pyobj"
  alpha :: "'a array"
  method_sel :: string
  iterations :: nat
  lr :: 'a
  eta_plus :: 'a
  eta_minus :: 'a
  amount_iter :: nat
  closs :: "'a option"

type_synonym engine = "real masking"

text \<open>\<^verbatim>\<open>np.finfo(np.float).eps\<close>, the machine epsilon of a 64-bit float.\<close>

definition machine_eps :: real where
  "machine_eps = 1 / 2 ^ 52"

text \<open>The constructor \<^verbatim>\<open>__init__\<close>.\<close>

definition init :: "ndarray \<Rightarrow> ndarray \<Rightarrow> pyval \<Rightarrow> pyval \<Rightarrow> pyval \<Rightarrow> real \<Rightarrow> string \<Rightarrow> engine" where
  "init mx s_target n_residual ps_target pn_residual a m =
     \<lparr> mX = mx, eps = machine_eps, sTarget = s_target, nResidual = n_residual,
       pTarget = ps_target, pY = pn_residual, mask_arr = PyList [], Out = PyList [],
       alpha = scalar a, method_sel = m, iterations = 200, lr = 15 / 10000,
       eta_plus = 11 / 10, eta_minus = 1 / 10, amount_iter = 0, closs = None \<rparr>"

subsection \<open>Helpers for the dynamically typed residual\<close>

text \<open>
  \<^verbatim>\<open>v ** a\<close>: a Python list has no power with a float; with an array exponent NumPy
  converts the list.
\<close>

definition pow_v :: "pyval \<Rightarrow> ndarray \<Rightarrow> error + ndarray" where
  "pow_v v a =
     (case v of
        ND x \<Rightarrow> bop np_power x a
      | PyList xs \<Rightarrow> if shape a = [] then Inl TypeError else bop_l np_power v a)"

text \<open>\<^verbatim>\<open>len(v)\<close> and \<^verbatim>\<open>v[i]\<close> for \<open>0 \<le> i\<close>.\<close>

definition len :: "'a pyobj \<Rightarrow> error + nat" where
  "len v =
     (case v of
        PyList xs \<Rightarrow> Inr (length xs)
      | ND a \<Rightarrow> (case shape a of [] \<Rightarrow> Inl TypeError | n # _ \<Rightarrow> Inr n))"

definition item :: "'a pyobj \<Rightarrow> nat \<Rightarrow> error + 'a array" where
  "item v i =
     (case v of
        PyList xs \<Rightarrow> if i < length xs then Inr (xs ! i) else Inl IndexError
      | ND a \<Rightarrow>
          (case shape a of
             [] \<Rightarrow> Inl IndexError
           | n # t \<Rightarrow>
               if i < n
               then Inr (NDArray t (take (prod_list t) (drop (i * prod_list t) (elems a))))
               else Inl IndexError))"

text \<open>
  The in-place addition \<^verbatim>\<open>a += b\<close> on an array: the broadcast result must have the
  shape of \<open>a\<close>.
\<close>

definition iadd :: "ndarray \<Rightarrow> ndarray \<Rightarrow> error + ndarray" where
  "iadd a b = bind (bop (+) a b) (\<lambda>c. if shape c = shape a then Inr c else Inl BroadcastError)"

subsection \<open>The mask algorithms\<close>

text \<open>
  Each method computes an array and stores it in the mask; when an exception is raised
  the engine is left as it was.
\<close>

definition set_mask :: "'a masking \<Rightarrow> error + 'a array \<Rightarrow> error + 'a masking" where
  "set_mask e m = bind m (\<lambda>a. Inr (e\<lparr>mask_arr := ND a\<rparr>))"

definition IRM :: "engine \<Rightarrow> error + engine" where
  "IRM e = set_mask e
     (bind (bop (+) (scalar (eps e)) (sTarget e)) (\<lambda>a.
      bind (bop_r (+) a (nResidual e)) (\<lambda>d.
      bop (/) (sTarget e) d)))"

definition IAM :: "engine \<Rightarrow> error + engine" where
  "IAM e = set_mask e
     (bind (bop_r (+) (scalar (eps e)) (nResidual e)) (\<lambda>d.
      bop (/) (sTarget e) d))"

text \<open>\<^verbatim>\<open>a.clip(eps, np.inf)\<close> is a method of arrays only.\<close>

definition ExpM :: "engine \<Rightarrow> error + engine" where
  "ExpM e = set_mask e
     (bind (bop np_power (uop (max (eps e)) (sTarget e)) (alpha e)) (\<lambda>p.
      case nResidual e of
        PyList xs \<Rightarrow> Inl AttributeError
      | ND r \<Rightarrow>
          bind (bop np_power (uop (max (eps e)) r) (alpha e)) (\<lambda>q.
          bop (/) (uop ln p) (uop ln q))))"

text \<open>
  The binary masks set \<^verbatim>\<open>mask[bg[0], bg[1]]\<close> and \<^verbatim>\<open>mask[sm[0], sm[1]]\<close> from
  \<^verbatim>\<open>np.where\<close>; on a two-dimensional array that is the threshold of every element,
  and on a one-dimensional array \<^verbatim>\<open>bg[1]\<close> does not exist.
\<close>

definition threshold :: "real \<Rightarrow> ndarray \<Rightarrow> error + ndarray" where
  "threshold theta m =
     (if length (shape m) = 2 then Inr (uop (\<lambda>x. if x \<ge> theta then 1 else 0) m)
      else if length (shape m) = 1 then Inl IndexError
      else Inl Unmodelled)"

definition IBM :: "engine \<Rightarrow> error + engine" where
  "IBM e = set_mask e
     (bind (bop np_power (sTarget e) (alpha e)) (\<lambda>p.
      bind (pow_v (nResidual e) (alpha e)) (\<lambda>q.
      bind (bop (+) (scalar (eps e)) q) (\<lambda>d.
      bind (bop (/) p d) (\<lambda>m.
      threshold (1 / 2) m)))))"

definition UBBM :: "engine \<Rightarrow> error + engine" where
  "UBBM e = set_mask e
     (bind (bop np_power (sTarget e) (alpha e)) (\<lambda>p.
      bind (bop (+) (scalar (eps e)) p) (\<lambda>n.
      bind (pow_v (nResidual e) (alpha e)) (\<lambda>q.
      bind (bop (+) (scalar (eps e)) q) (\<lambda>d.
      bind (bop (/) n d) (\<lambda>r.
      bind (bop (+) (scalar (eps e)) r) (\<lambda>s.
      bind (bop (*) (scalar 20) (uop ln s)) (\<lambda>m.
      threshold 0 m))))))))"

text \<open>
  \<^verbatim>\<open>Wiener\<close> and \<^verbatim>\<open>alphaHarmonizableProcess\<close> differ in the exponent only (\<open>2.\<close> or
  \<^verbatim>\<open>self._alpha\<close>). Both branches on \<^verbatim>\<open>numElements\<close> start with
  \<^verbatim>\<open>nResidual[0] ** a + localsTarget\<close>; the loop over \<^verbatim>\<open>range(1, numElements)\<close> adds the
  other components in place.
\<close>

fun add_residuals :: "pyval \<Rightarrow> ndarray \<Rightarrow> nat list \<Rightarrow> ndarray \<Rightarrow> error + ndarray" where
  "add_residuals v a [] acc = Inr acc"
| "add_residuals v a (indx # is) acc =
     bind (item v indx) (\<lambda>r.
     bind (bop np_power r a) (\<lambda>p.
     bind (iadd acc p) (\<lambda>acc'.
     add_residuals v a is acc')))"

definition wiener_like :: "engine \<Rightarrow> ndarray \<Rightarrow> error + engine" where
  "wiener_like e a = set_mask e
     (bind (bop np_power (sTarget e) a) (\<lambda>localsTarget.
      bind (len (nResidual e)) (\<lambda>numElements.
      bind (item (nResidual e) 0) (\<lambda>r0.
      bind (bop np_power r0 a) (\<lambda>p0.
      bind (bop (+) p0 localsTarget) (\<lambda>first.
      bind (add_residuals (nResidual e) a [1..<numElements] first) (\<lambda>localnResidual.
      bind (bop (+) localsTarget (scalar (eps e))) (\<lambda>n.
      bind (bop (+) (scalar (eps e)) localnResidual) (\<lambda>d.
      bop (/) n d)))))))))"

definition Wiener :: "engine \<Rightarrow> error + engine" where
  "Wiener e = wiener_like e (scalar 2)"

definition alphaHarmonizableProcess :: "engine \<Rightarrow> error + engine" where
  "alphaHarmonizableProcess e = wiener_like e (alpha e)"

text \<open>
  \<^verbatim>\<open>phaseSensitive\<close> runs after the check of \<^verbatim>\<open>__call__\<close>, so the target phase is an
  array there; the difference of two lists is a \<^verbatim>\<open>TypeError\<close>.
\<close>

definition phaseSensitive :: "engine \<Rightarrow> error + engine" where
  "phaseSensitive e = set_mask e
     (bind (case pTarget e of
              ND p \<Rightarrow> bop_r (-) p (pY e)
            | PyList xs \<Rightarrow> (case pY e of ND q \<Rightarrow> bop_l (-) (pTarget e) q
                                        | PyList ys \<Rightarrow> Inl TypeError)) (\<lambda>Theta.
      bind (bop_r (+) (scalar (eps e)) (nResidual e)) (\<lambda>d.
      bind (bop (/) (sTarget e) d) (\<lambda>q.
      bind (bop (*) q (uop cos Theta)) (\<lambda>x.
      bind (bop (+) (scalar 1) (uop (\<lambda>v. exp (- v)) x)) (\<lambda>y.
      bind (bop (/) (scalar 2) y) (\<lambda>z.
      bop (-) z (scalar 1))))))))"

subsection \<open>Applying the mask\<close>

definition applyMask :: "engine \<Rightarrow> error + engine" where
  "applyMask e =
     (if method_sel e = ''expMask''
      then bind (bop np_power (mX e) (alpha e)) (\<lambda>p.
           bind (bop_r np_power p (mask_arr e)) (\<lambda>out.
           Inr (e\<lparr>Out := ND out\<rparr>)))
      else bind (bop_l (*) (mask_arr e) (mX e)) (\<lambda>out.
           Inr (e\<lparr>Out := ND out\<rparr>)))"

definition applyReverseMask :: "engine \<Rightarrow> error + engine" where
  "applyReverseMask e =
     (if method_sel e = ''expMask''
      then Inl (ValueError ''Cannot compute that using such masking method.'')
      else bind (case mask_arr e of
                   PyList xs \<Rightarrow> Inl TypeError
                 | ND m \<Rightarrow> bop (-) (scalar 1) m) (\<lambda>c.
           bind (bop (*) c (mX e)) (\<lambda>out.
           Inr (e\<lparr>Out := ND out\<rparr>))))"

subsection \<open>Multichannel Wiener filtering\<close>

text \<open>
  \<^verbatim>\<open>MWF\<close> works on three-dimensional arrays (channels, frequency bins, time frames).
  A matrix is a list of rows. The covariance arrays \<^verbatim>\<open>Rxx\<close> and \<^verbatim>\<open>Rnn\<close> of shape
  \<open>(M, M, F)\<close> are kept as the list of their \<open>F\<close> slices \<^verbatim>\<open>R[:, :, f]\<close>. The
  pseudo-inverse \<^verbatim>\<open>np.linalg.pinv\<close> is a parameter of the model.
\<close>

type_synonym matrix = "real list list"

definition at3 :: "ndarray \<Rightarrow> nat \<Rightarrow> nat \<Rightarrow> nat \<Rightarrow> real" where
  "at3 a c f t = elems a ! ((c * (shape a ! 1) + f) * (shape a ! 2) + t)"

text \<open>The slice \<^verbatim>\<open>a[:, f, t]\<close>.\<close>

definition column :: "ndarray \<Rightarrow> nat \<Rightarrow> nat \<Rightarrow> real list" where
  "column a f t = map (\<lambda>c. at3 a c f t) [0..<shape a ! 0]"

definition eye :: "nat \<Rightarrow> matrix" where
  "eye M = map (\<lambda>i. map (\<lambda>j. if i = j then 1 else 0) [0..<M]) [0..<M]"

definition mat_map :: "(real \<Rightarrow> real) \<Rightarrow> matrix \<Rightarrow> matrix" where
  "mat_map g A = map (map g) A"

definition mat_map2 :: "(real \<Rightarrow> real \<Rightarrow> real) \<Rightarrow> matrix \<Rightarrow> matrix \<Rightarrow> matrix" where
  "mat_map2 g A B = map2 (map2 g) A B"

definition dot_vec :: "matrix \<Rightarrow> real list \<Rightarrow> real list" where
  "dot_vec A v = map (\<lambda>row. sum_list (map2 (*) row v)) A"

definition mat_mul :: "matrix \<Rightarrow> matrix \<Rightarrow> matrix" where
  "mat_mul A B = map (\<lambda>row. dot_vec (transpose B) row) A"

definition trace :: "matrix \<Rightarrow> real" where
  "trace A = sum_list (map (\<lambda>i. A ! i ! i) [0..<length A])"

definition outer :: "real list \<Rightarrow> matrix" where
  "outer v = map (\<lambda>x. map (\<lambda>y. x * y) v) v"

definition flambda :: real where
  "flambda = 99 / 100"

record mwf_state =
  Rxx :: "matrix list"
  Rnn :: "matrix list"
  fout :: "real list"

text \<open>
  The body of the two loops at the time frame \<open>t\<close> and the frequency bin \<open>f\<close>. With one
  estimated channel the slice \<^verbatim>\<open>cX[:, f, t]\<close> has the single element \<^verbatim>\<open>cX[0, f, t]\<close>,
  which NumPy broadcasts over the whole matrix.
\<close>

definition mwf_step ::
  "(matrix \<Rightarrow> matrix) \<Rightarrow> ndarray \<Rightarrow> ndarray \<Rightarrow> ndarray \<Rightarrow> nat \<Rightarrow> nat \<Rightarrow> mwf_state \<Rightarrow> mwf_state" where
  "mwf_step pinv mx cX cN t f st =
     (let M = shape mx ! 0;
          gF = 1 / real M;
          eM = shape cX ! 0;
          F = shape cX ! 1;
          T = shape cX ! 2;
          I = eye M;
          x = column cX f t;
          n = column cN f t;
          Rxx_f = (if eM = 1
                   then mat_map (\<lambda>r. flambda * r + (1 - flambda) * (x ! 0)) (Rxx st ! f)
                   else mat_map (\<lambda>r. r / sum_list x) (outer x));
          Rnn_f = (if eM = 1
                   then mat_map (\<lambda>r. flambda * r + (1 - flambda) * (n ! 0)) (Rnn st ! f)
                   else mat_map (\<lambda>r. r / sum_list n) (outer n));
          inv = mat_mul (pinv Rnn_f) (mat_map2 (+) Rnn_f Rxx_f);
          Wf = (if eM = 1
                then mat_map (\<lambda>w. w / ((n ! 0 + x ! 0 + 1 / 10 ^ 16) / (x ! 0 + 1 / 10 ^ 16)
                                        + trace inv * gF)) (mat_map2 (-) inv I)
                else mat_map (\<lambda>w. w / (gF * trace inv)) (mat_map2 (-) inv I));
          out = dot_vec (transpose Wf) (column mx f t)
      in \<lparr> Rxx = (Rxx st)[f := Rxx_f],
           Rnn = (Rnn st)[f := Rnn_f],
           fout = fold (\<lambda>c acc. acc[(c * F + f) * T + t := out ! c]) [0..<M] (fout st) \<rparr>)"

text \<open>\<^verbatim>\<open>for t in range(T): for f in range(F): ...\<close>\<close>

definition mwf_loop ::
  "(matrix \<Rightarrow> matrix) \<Rightarrow> ndarray \<Rightarrow> ndarray \<Rightarrow> ndarray \<Rightarrow> nat \<Rightarrow> nat \<Rightarrow> mwf_state \<Rightarrow> mwf_state" where
  "mwf_loop pinv mx cX cN T F st =
     fold (\<lambda>t st. fold (\<lambda>f st. mwf_step pinv mx cX cN t f st) [0..<F] st) [0..<T] st"

text \<open>The state before the loops: identity matrices for every bin, a zero output.\<close>

definition mwf_init :: "nat \<Rightarrow> nat \<Rightarrow> nat \<Rightarrow> mwf_state" where
  "mwf_init M F T =
     \<lparr> Rxx = replicate F (eye M), Rnn = replicate F (eye M), fout = replicate (M * F * T) 0 \<rparr>"

definition MWF :: "(matrix \<Rightarrow> matrix) \<Rightarrow> engine \<Rightarrow> error + engine" where
  "MWF pinv e =
     bind (bop np_power (sTarget e) (alpha e)) (\<lambda>cX.
     bind (pow_v (nResidual e) (alpha e)) (\<lambda>cN.
     if shape (mX e) = [] then Inl IndexError
     else if shape (mX e) ! 0 = 0 then Inl ZeroDivisionError
     else if length (shape cX) < 3 then Inl IndexError
     else
       let M = shape (mX e) ! 0; eM = shape cX ! 0; F = shape cX ! 1; T = shape cX ! 2 in
       if length (shape cX) = 3 \<and> shape cN = shape cX \<and> shape (mX e) = [M, F, T]
          \<and> (eM = 1 \<or> eM = M) \<and> wf (mX e) \<and> wf cX \<and> wf cN
       then Inr (e\<lparr>Out := ND (NDArray [M, F, T]
                   (map abs (fout (mwf_loop pinv (mX e) cX cN T F (mwf_init M F T)))))\<rparr>)
       else Inl Unmodelled))"

subsection \<open>Dispatch\<close>

text \<open>
  \<^verbatim>\<open>__call__\<close> returns the engine after the call together with either the exception
  raised or the value returned, \<^verbatim>\<open>self._Out\<close>. \<open>run\<close> is the pattern shared by eight
  branches: compute the mask, then apply it or its complement.
\<close>

definition run :: "(engine \<Rightarrow> error + engine) \<Rightarrow> engine \<Rightarrow> bool \<Rightarrow> engine \<times> (error + pyval)" where
  "run compute e reverse =
     (case compute e of
        Inl err \<Rightarrow> (e, Inl err)
      | Inr e1 \<Rightarrow>
          (case (if \<not> reverse then applyMask e1 else applyReverseMask e1) of
             Inl err \<Rightarrow> (e1, Inl err)
           | Inr e2 \<Rightarrow> (e2, Inr (Out e2))))"

text \<open>
  The check of the Phase branch reads \<^verbatim>\<open>self._pTarget.size\<close> on both sides of its
  \<^verbatim>\<open>or\<close>; a Python list has no attribute \<^verbatim>\<open>size\<close>.
\<close>

definition call :: "(matrix \<Rightarrow> matrix) \<Rightarrow> engine \<Rightarrow> bool \<Rightarrow> engine \<times> (error + pyval)" where
  "call pinv e reverse =
     (if method_sel e = ''Phase'' then
        (case pTarget e of
           PyList xs \<Rightarrow> (e, Inl AttributeError)
         | ND p \<Rightarrow>
             if size_nd p = 0 \<or> size_nd p = 0
             then (e, Inl (ValueError
               ''Phase-sensitive masking cannot be performed without phase information.''))
             else run phaseSensitive e reverse)
      else if method_sel e = ''IRM'' then run IRM e reverse
      else if method_sel e = ''IAM'' then run IAM e reverse
      else if method_sel e = ''IBM'' then run IBM e reverse
      else if method_sel e = ''UBBM'' then run UBBM e reverse
      else if method_sel e = ''Wiener'' then run Wiener e reverse
      else if method_sel e = ''alphaWiener'' then run alphaHarmonizableProcess e reverse
      else if method_sel e = ''expMask'' then run ExpM e reverse
      else if method_sel e = ''MWF'' then
        (case MWF pinv e of
           Inl err \<Rightarrow> (e, Inl err)
         | Inr e1 \<Rightarrow> (e1, Inr (Out e1)))
      else (e, Inr (Out e)))"

text \<open>The names the specification gives to the two errors the source raises itself.\<close>

definition InvalidConfiguration :: error where
  "InvalidConfiguration =
     ValueError ''Phase-sensitive masking cannot be performed without phase information.''"

definition UnsupportedOperation :: error where
  "UnsupportedOperation = ValueError ''Cannot compute that using such masking method.''"

section \<open>The exponent optimiser\<close>

text \<open>
  \<^verbatim>\<open>optAlpha\<close> searches one exponent per source (the target, then the residual
  components) by gradient steps on the Itakura-Saito loss. The sources are stacked by
  \<^verbatim>\<open>np.asarray\<close> and read as \<^verbatim>\<open>s_list[source, :, :]\<close>, so they are two-dimensional arrays
  of one shape; the vectors \<^verbatim>\<open>alpha\<close>, \<^verbatim>\<open>d_loss\<close> and \<^verbatim>\<open>lrs\<close> are lists with one entry
  per source.
\<close>

text \<open>\<^verbatim>\<open>list(self._nResidual)\<close> with the target inserted in front.\<close>

definition sources :: "engine \<Rightarrow> error + ndarray list" where
  "sources e =
     bind (case nResidual e of
             PyList xs \<Rightarrow> Inr xs
           | ND a \<Rightarrow> bind (len (ND a)) (\<lambda>n. Inr (map (\<lambda>i. NDArray (tl (shape a))
                        (take (prod_list (tl (shape a)))
                           (drop (i * prod_list (tl (shape a))) (elems a)))) [0..<n]))) (\<lambda>rs.
     if \<forall>y \<in> set rs. shape y = shape (sTarget e) then Inr (sTarget e # rs)
     else Inl Unmodelled)"

text \<open>
  The additive model \<open>Xhat\<close>, the sum over the sources of \<open>source ** alpha[source]\<close>. The
  source computes it twice in every iteration, by \<^verbatim>\<open>np.sum(np.power(...), axis=0)\<close> and
  by adding the powers to 0 one after the other; over the reals both are this sum.
\<close>

definition additive :: "ndarray list \<Rightarrow> real list \<Rightarrow> ndarray" where
  "additive srcs a =
     NDArray (shape (hd srcs))
       (map (\<lambda>i. sum_list (map2 (\<lambda>s x. np_power (elems s ! i) x) srcs a))
            [0..<length (elems (hd srcs))])"

text \<open>\<^verbatim>\<open>_dIS\<close> and \<^verbatim>\<open>_IS\<close>; both read the mixture and the exponent of the engine.\<close>

definition dIS :: "engine \<Rightarrow> ndarray \<Rightarrow> error + real" where
  "dIS e Xhat =
     bind (bop np_power (uop abs (mX e)) (alpha e)) (\<lambda>A.
     bind (bop (-) (uop abs Xhat) A) (\<lambda>diff.
     bind (bop (*) (uop (\<lambda>x. np_power \<bar>x + eps e\<bar> (- 2)) Xhat) diff) (\<lambda>dis.
     Inr (np_mean dis))))"

definition IS :: "engine \<Rightarrow> ndarray \<Rightarrow> error + real" where
  "IS e Xhat =
     bind (bop np_power (uop abs (mX e)) (alpha e)) (\<lambda>A.
     bind (bop (/) (uop (\<lambda>x. x + eps e) A) (uop (\<lambda>x. \<bar>x\<bar> + eps e) Xhat)) (\<lambda>r1.
     bind (bop (-) (uop (\<lambda>x. ln (x + eps e)) A) (uop (\<lambda>x. ln (\<bar>x\<bar> + eps e)) Xhat)) (\<lambda>lg.
     bind (bop (-) r1 lg) (\<lambda>d.
     Inr (np_mean (uop (\<lambda>x. x - 1) d))))))"

text \<open>\<^verbatim>\<open>np.round\<close> rounds a half to the even neighbour; \<^verbatim>\<open>np.clip\<close>.\<close>

definition np_round :: "real \<Rightarrow> real" where
  "np_round x =
     (let f = \<lfloor>x\<rfloor>; d = x - of_int f
      in if d < 1 / 2 then of_int f
         else if d > 1 / 2 then of_int f + 1
         else if even f then of_int f else of_int f + 1)"

definition np_clip :: "real \<Rightarrow> real \<Rightarrow> real \<Rightarrow> real" where
  "np_clip x lo hi = min hi (max lo x)"

text \<open>\<^verbatim>\<open>np.argmin\<close>: the first index of a least element.\<close>

fun argmin :: "real list \<Rightarrow> nat" where
  "argmin [] = 0"
| "argmin (x # xs) = (if \<forall>y \<in> set xs. x \<le> y then 0 else Suc (argmin xs))"

text \<open>Python's \<^verbatim>\<open>xs[i]\<close> on a non-empty list for \<open>i \<ge> -1\<close>, and \<^verbatim>\<open>xs[-k]\<close>.\<close>

definition py_index_pred :: "'a list \<Rightarrow> nat \<Rightarrow> 'a" where
  "py_index_pred xs i = (if i = 0 then last xs else xs ! (i - 1))"

definition from_end :: "'a list \<Rightarrow> nat \<Rightarrow> 'a" where
  "from_end xs k = xs ! (length xs - k)"

text \<open>
  The variables of the loop. \<open>alpha_log\<close> is a list of references: the entry appended in
  one iteration is the very array that \<^verbatim>\<open>alpha -= (lrs * d_loss)\<close> changes in place at
  the start of the next one, so the state keeps the contents the entries have.
\<close>

record opt_state =
  alpha_v :: "real list"
  lrs :: "real list"
  i_s_loss :: "real list"
  alpha_log :: "real list list"

text \<open>How the loop was left: by the end of \<^verbatim>\<open>range\<close>, or by one of the two \<^verbatim>\<open>break\<close>s.\<close>

datatype exit = Exhausted | Stuck | LocalMinimum

definition opt_init :: "engine \<Rightarrow> nat \<Rightarrow> opt_state" where
  "opt_init e num_elements =
     \<lparr> alpha_v = replicate num_elements (115 / 100), lrs = replicate num_elements (lr e),
       i_s_loss = [], alpha_log = [] \<rparr>"

text \<open>The gradient step: \<open>d_loss\<close> for every source, and the exponents before clipping.\<close>

definition d_loss :: "engine \<Rightarrow> ndarray list \<Rightarrow> real list \<Rightarrow> error + real list" where
  "d_loss e srcs a =
     bind (dIS e (additive srcs a)) (\<lambda>dis.
     Inr (map2 (\<lambda>s x. dis * np_mean (uop (\<lambda>v. np_power v x * ln (v + eps e)) s)) srcs a))"

definition rprop :: "engine \<Rightarrow> real list \<Rightarrow> real list \<Rightarrow> real list" where
  "rprop e ls rates =
     (let l1 = (if from_end ls 2 - from_end ls 1 > 0 then map (\<lambda>r. r * eta_plus e) rates
                else rates)
      in if from_end ls 2 - from_end ls 1 < 0 then map (\<lambda>r. r * eta_minus e) l1 else l1)"

text \<open>
  One pass through the body of the loop; the second component says whether the body ended
  in a \<^verbatim>\<open>break\<close>.
\<close>

definition opt_iter ::
  "engine \<Rightarrow> ndarray list \<Rightarrow> nat \<Rightarrow> opt_state \<Rightarrow> error + (opt_state \<times> exit option)" where
  "opt_iter e srcs iter_index st =
     bind (d_loss e srcs (alpha_v st)) (\<lambda>dl.
     let raw = map2 (-) (alpha_v st) (map2 (*) (lrs st) dl);
         log1 = (if alpha_log st = [] then [] else butlast (alpha_log st) @ [raw]);
         a = map (\<lambda>x. np_round (np_clip x (1 / 2) 2 * 100) / 100) raw;
         log2 = log1 @ [a]
     in bind (IS e (additive srcs a)) (\<lambda>loss.
        let ls = i_s_loss st @ [loss] in
        if iter_index > 2 then
          let rates = rprop e ls (lrs st) in
          if iter_index > 4 \<and> \<bar>from_end ls 2 - from_end ls 1\<bar> < 1 / 10 ^ 4
                            \<and> \<bar>from_end ls 3 - from_end ls 2\<bar> < 1 / 10 ^ 4
          then if from_end ls 1 > 3 / 10
               then Inr (\<lparr> alpha_v = py_index_pred log2 (argmin ls), lrs = rates,
                           i_s_loss = ls[length ls - 1 := ls ! argmin ls],
                           alpha_log = log2 \<rparr>, Some Stuck)
               else Inr (\<lparr> alpha_v = a, lrs = rates, i_s_loss = ls, alpha_log = log2 \<rparr>,
                         Some LocalMinimum)
          else Inr (\<lparr> alpha_v = a, lrs = rates, i_s_loss = ls, alpha_log = log2 \<rparr>, None)
        else Inr (\<lparr> alpha_v = a, lrs = lrs st, i_s_loss = ls, alpha_log = log2 \<rparr>, None)))"

text \<open>
  \<^verbatim>\<open>for iter_index in range(self._iterations)\<close>, over the list of the indices still to
  come. The result carries the way the loop ended and the last value of \<^verbatim>\<open>iter_index\<close>;
  with no iteration at all \<^verbatim>\<open>iter_index\<close> is unbound when it is read after the loop.
\<close>

fun opt_loop ::
  "engine \<Rightarrow> ndarray list \<Rightarrow> nat list \<Rightarrow> opt_state \<Rightarrow> error + (opt_state \<times> exit \<times> nat)" where
  "opt_loop e srcs [] st = Inl NameError"
| "opt_loop e srcs (i # is) st =
     bind (opt_iter e srcs i st) (\<lambda>(st', brk).
       case brk of
         Some x \<Rightarrow> Inr (st', x, i)
       | None \<Rightarrow> if is = [] then Inr (st', Exhausted, i) else opt_loop e srcs is st')"

definition opt_run :: "engine \<Rightarrow> error + (opt_state \<times> exit \<times> nat)" where
  "opt_run e =
     bind (sources e) (\<lambda>srcs.
     if iterations e = 0 then Inl NameError
     else if length (shape (sTarget e)) < 2 then Inl IndexError
     else if length (shape (sTarget e)) > 2 then Inl Unmodelled
     else opt_loop e srcs [0..<iterations e] (opt_init e (length srcs)))"

text \<open>
  The code after the loop: the exponent and the loss it commits to the engine, the number
  of iterations, and the mask \<open>(target ** alpha[0] + eps) / (Xhat + eps)\<close>.
\<close>

definition optAlpha :: "engine \<Rightarrow> real \<Rightarrow> error + engine" where
  "optAlpha e initloss =
     bind (sources e) (\<lambda>srcs.
     bind (opt_run e) (\<lambda>(st, x, iter_index).
     let e1 = (if iter_index = iterations e
               then e\<lparr> alpha := NDArray [length srcs] (alpha_log st ! argmin (i_s_loss st)),
                       closs := Some (i_s_loss st ! argmin (i_s_loss st)) \<rparr>
               else e\<lparr> closs := Some (from_end (i_s_loss st) 1),
                       alpha := NDArray [length srcs] (alpha_v st) \<rparr>);
         Xhat = additive srcs (alpha_v st)
     in bind (bop (/) (uop (\<lambda>v. np_power v (alpha_v st ! 0) + eps e) (hd srcs))
                      (uop (\<lambda>v. v + eps e) Xhat)) (\<lambda>m.
        Inr (e1\<lparr> amount_iter := iter_index, mask_arr := ND m \<rparr>))))"

section \<open>64-bit floats\<close>

text \<open>
  The arrays of the engine hold IEEE 754 double-precision numbers. The four arithmetic
  operations on them are correctly rounded: the result is the exact result, rounded to
  the nearest double, a tie going to the neighbour with the even significand. For the
  methods that use these four operations only, the engine is read a second time below
  with this arithmetic in place of the real numbers. A double is a real number that
  rounding leaves alone, or one of the two infinities, or \<open>nan\<close>; the two zeros of the
  format are not told apart (they compare equal in Python), so a division of a number
  other than zero by zero gives the infinity with the sign of the numerator.
\<close>

text \<open>Powers of two with a real exponent, kept behind a constant so that no proof expands them.\<close>

definition pw2 :: "real \<Rightarrow> real" where
  "pw2 k = 2 powr k"

text \<open>The nearest integer, a half going to the even neighbour.\<close>

definition rint :: "real \<Rightarrow> int" where
  "rint y =
     (let f = \<lfloor>y\<rfloor>; d = y - of_int f
      in if d < 1 / 2 \<or> (d = 1 / 2 \<and> even f) then f else f + 1)"

text \<open>
  The exponent of a real number in the format: \<open>\<lfloor>log\<^sub>2 |x|\<rfloor>\<close>, and \<open>-1022\<close> for the
  subnormal numbers and zero. Doubles with that exponent are \<open>2\<^sup>5\<^sup>2\<close> apart from the
  next: \<open>ulp\<close> is the spacing, and \<open>rnd\<close> rounds to the nearest multiple of it.
\<close>

definition expo :: "real \<Rightarrow> int" where
  "expo x = (if x = 0 then - 1022 else max \<lfloor>log 2 \<bar>x\<bar>\<rfloor> (- 1022))"

definition ulp :: "real \<Rightarrow> real" where
  "ulp x = pw2 (of_int (expo x) - 52)"

definition rnd :: "real \<Rightarrow> real" where
  "rnd x = of_int (rint (x / ulp x)) * ulp x"

datatype f64 = Fin real | PInf | NInf | NaN

text \<open>A result that rounds to \<open>2\<^sup>1\<^sup>0\<^sup>2\<^sup>4\<close> or beyond overflows to an infinity.\<close>

definition fl :: "real \<Rightarrow> f64" where
  "fl x = (if \<bar>rnd x\<bar> < pw2 1024 then Fin (rnd x) else if 0 < x then PInf else NInf)"

text \<open>The sign of a value as a real number (0 for a zero and for \<open>nan\<close>), and the infinity of a sign.\<close>

fun fsgn :: "f64 \<Rightarrow> real" where
  "fsgn (Fin x) = sgn x"
| "fsgn PInf = 1"
| "fsgn NInf = - 1"
| "fsgn NaN = 0"

definition inf_of :: "real \<Rightarrow> f64" where
  "inf_of s = (if s = 0 then NaN else if 0 < s then PInf else NInf)"


fun fadd :: "f64 \<Rightarrow> f64 \<Rightarrow> f64" where
  "fadd (Fin x) (Fin y) = fl (x + y)"
| "fadd NaN b = NaN"
| "fadd a NaN = NaN"
| "fadd (Fin x) b = b"
| "fadd a (Fin y) = a"
| "fadd a b = (if a = b then a else NaN)"


fun fmul :: "f64 \<Rightarrow> f64 \<Rightarrow> f64" where
  "fmul (Fin x) (Fin y) = fl (x * y)"
| "fmul NaN b = NaN"
| "fmul a NaN = NaN"
| "fmul a b = inf_of (fsgn a * fsgn b)"

fun fdiv :: "f64 \<Rightarrow> f64 \<Rightarrow> f64" where
  "fdiv (Fin x) (Fin y) = (if y = 0 then inf_of (sgn x) else fl (x / y))"
| "fdiv NaN b = NaN"
| "fdiv a NaN = NaN"
| "fdiv (Fin x) b = Fin 0"
| "fdiv a (Fin y) = inf_of (fsgn a * (if y < 0 then - 1 else 1))"
| "fdiv a b = NaN"

text \<open>
  \<^verbatim>\<open>a ** 2.\<close> on an array: NumPy computes the power with the exponent 2 as the square
  \<open>x * x\<close>.
\<close>

definition fsquare :: "f64 \<Rightarrow> f64" where
  "fsquare x = fmul x x"

text \<open>The real numbers that are finite doubles.\<close>

definition double :: "real \<Rightarrow> bool" where
  "double x \<longleftrightarrow> rnd x = x \<and> \<bar>x\<bar> < pw2 1024"

section \<open>The arithmetic methods in 64-bit floats\<close>

text \<open>
  The constructor, \<^verbatim>\<open>IRM\<close>, \<^verbatim>\<open>Wiener\<close> and the two apply steps once more, on arrays of
  doubles and with the rounded operations. They follow the same lines of the source as
  their counterparts over the reals. The float literals of the constructor are the
  doubles nearest to them. The power of two floats with an exponent other than 2 is not
  a correctly rounded operation, so the branch of \<^verbatim>\<open>applyMask\<close> for \<open>expMask\<close> is outside
  this reading.
\<close>

definition init_f64 ::
  "f64 array \<Rightarrow> f64 array \<Rightarrow> f64 pyobj \<Rightarrow> f64 pyobj \<Rightarrow> f64 pyobj \<Rightarrow> f64 \<Rightarrow> string \<Rightarrow> f64 masking" where
  "init_f64 mx s_target n_residual ps_target pn_residual a m =
     \<lparr> mX = mx, eps = Fin machine_eps, sTarget = s_target, nResidual = n_residual,
       pTarget = ps_target, pY = pn_residual, mask_arr = PyList [], Out = PyList [],
       alpha = scalar a, method_sel = m, iterations = 200, lr = fl (15 / 10000),
       eta_plus = fl (11 / 10), eta_minus = fl (1 / 10), amount_iter = 0, closs = None \<rparr>"


definition iadd_f64 :: "f64 array \<Rightarrow> f64 array \<Rightarrow> error + f64 array" where
  "iadd_f64 a b = bind (bop fadd a b) (\<lambda>c. if shape c = shape a then Inr c else Inl BroadcastError)"

fun add_residuals_f64 :: "f64 pyobj \<Rightarrow> nat list \<Rightarrow> f64 array \<Rightarrow> error + f64 array" where
  "add_residuals_f64 v [] acc = Inr acc"
| "add_residuals_f64 v (indx # is) acc =
     bind (item v indx) (\<lambda>r.
     bind (iadd_f64 acc (uop fsquare r)) (\<lambda>acc'.
     add_residuals_f64 v is acc'))"

definition Wiener_f64 :: "f64 masking \<Rightarrow> error + f64 masking" where
  "Wiener_f64 e = set_mask e
     (let localsTarget = uop fsquare (sTarget e) in
      bind (len (nResidual e)) (\<lambda>numElements.
      bind (item (nResidual e) 0) (\<lambda>r0.
      bind (bop fadd (uop fsquare r0) localsTarget) (\<lambda>first.
      bind (add_residuals_f64 (nResidual e) [1..<numElements] first) (\<lambda>localnResidual.
      bind (bop fadd localsTarget (scalar (eps e))) (\<lambda>n.
      bind (bop fadd (scalar (eps e)) localnResidual) (\<lambda>d.
      bop fdiv n d)))))))"



section \<open>The specification's formulas\<close>


text \<open>
  The Itakura-Saito loss in the specification's words: the mean of \<open>r - log r - 1\<close> with
  \<open>r = (|mixture| ** a + \<epsilon>) / (|Xhat| + \<epsilon>)\<close>, for a reference exponent \<open>a\<close>.
\<close>

definition IS_formula :: "real \<Rightarrow> real \<Rightarrow> ndarray \<Rightarrow> ndarray \<Rightarrow> real" where
  "IS_formula \<epsilon> a mixture Xhat =
     np_mean (NDArray (shape Xhat)
       (map2 (\<lambda>m x. let r = (np_power \<bar>m\<bar> a + \<epsilon>) / (\<bar>x\<bar> + \<epsilon>) in r - ln r - 1)
             (elems mixture) (elems Xhat)))"



text \<open>
  The Wiener mask of one element \<open>t\<close> of the target when the only residual component
  is the target itself: \<open>(t\<^sup>2 + \<epsilon>) / (\<epsilon> + (t\<^sup>2 + t\<^sup>2))\<close>, in the order of the source.
\<close>

definition wiener_ratio :: "f64 \<Rightarrow> f64 \<Rightarrow> f64" where
  "wiener_ratio \<epsilon> t = fdiv (fadd (fsquare t) \<epsilon>) (fadd \<epsilon> (fadd (fsquare t) (fsquare t)))"

section \<open>Example engines\<close>

text \<open>Concrete engines, built by the constructor, on which the theorems below are evaluated.\<close>

definition exp_engine :: engine where
  "exp_engine = init (NDArray [1, 1] [3]) (NDArray [1, 1] [2]) (ND (NDArray [1, 1] [4]))
                     (PyList []) (PyList []) 1 ''expMask''"

text \<open>The same engine with the residual passed as a list of one component.\<close>

definition exp_list_engine :: engine where
  "exp_list_engine = init (NDArray [1, 1] [3]) (NDArray [1, 1] [2]) (PyList [NDArray [1, 1] [4]])
                          (PyList []) (PyList []) 1 ''expMask''"

definition phase_engine :: engine where
  "phase_engine = init (NDArray [1, 1] [1]) (NDArray [1, 1] [1]) (ND (NDArray [1, 1] [1]))
                       (ND (NDArray [1, 1] [0])) (PyList []) (12 / 10) ''Phase''"

definition irm_engine :: engine where
  "irm_engine = init (NDArray [1, 2] [4, 3]) (NDArray [1, 2] [2, 0]) (ND (NDArray [1, 2] [2, 3]))
                     (PyList []) (PyList []) 2 ''IRM''"




definition silent_engine_f64 :: "f64 masking" where
  "silent_engine_f64 = init_f64 (NDArray [1, 1] [Fin 0]) (NDArray [1, 1] [Fin 0])
                                (PyList [NDArray [1, 1] [Fin 0]]) (PyList []) (PyList [])
                                (Fin 1) ''Wiener''"

text \<open>A target of two frequency bins and one frame, the residual passed as the same array.\<close>

definition rows_engine :: "f64 masking" where
  "rows_engine = init_f64 (NDArray [2, 1] [Fin 1, Fin 1]) (NDArray [2, 1] [Fin 1, Fin 1])
                          (ND (NDArray [2, 1] [Fin 1, Fin 1])) (PyList []) (PyList [])
                          (Fin 1) ''Wiener''"


text \<open>A target of three elements (0, 2 and 3) with itself as the only residual component.\<close>

definition self_engine :: "f64 masking" where
  "self_engine = init_f64 (NDArray [1, 3] [Fin 0, Fin 4, Fin 6]) (NDArray [1, 3] [Fin 0, Fin 2, Fin 3])
                          (PyList [NDArray [1, 3] [Fin 0, Fin 2, Fin 3]]) (PyList []) (PyList [])
                          (Fin 1) ''Wiener''"

definition c4_engine :: engine where
  "c4_engine = init (NDArray [1, 1] [2]) (NDArray [1, 1] [0]) (PyList [])
                    (PyList []) (PyList []) 1 ''alphaWiener''"

text \<open>
  An engine with a single source (no residual) whose exponent swings between the two
  bounds of the clipping for all 200 iterations.
\<close>

definition osc_engine :: engine where
  "osc_engine = init (NDArray [1, 2] [0, 2 ^ 840]) (NDArray [1, 2] [1 / 2 ^ 20, 2 ^ 320])
                     (PyList []) (PyList []) (PyList []) 1 ''alphaWiener''"

text \<open>
  An engine with a single source whose exponent reaches the lower bound of the clipping in
  two steps and stays there, at a loss above 0.3.
\<close>

definition stuck_engine :: engine where
  "stuck_engine = init (NDArray [1, 1] [1]) (NDArray [1, 1] [2 ^ 375]) (PyList [])
                       (PyList []) (PyList []) 1 ''alphaWiener''"

section \<open>Auxiliary definitions for the runs of the optimiser\<close>

text \<open>
  The gradient factors, the additive model and the loss of \<open>osc_engine\<close> as
  functions of its exponent; one term \<open>r - log r - 1\<close> of the loss; and the invariant of
  its loop after \<open>n\<close> iterations.
\<close>

definition osc_P :: "real \<Rightarrow> real" where
  "osc_P a = (pw2 (- 20 * a) / (pw2 (- 20 * a) + pw2 (- 52))\<^sup>2
              + (pw2 (320 * a) - pw2 840) / (pw2 (320 * a) + pw2 (- 52))\<^sup>2) / 2"

definition osc_Q :: "real \<Rightarrow> real" where
  "osc_Q a = (pw2 (- 20 * a) * ln (pw2 (- 20) + pw2 (- 52))
              + pw2 (320 * a) * ln (pw2 320 + pw2 (- 52))) / 2"

definition osc_X :: "real \<Rightarrow> ndarray" where
  "osc_X a = NDArray [1, 2] [pw2 (- 20 * a), pw2 (320 * a)]"

definition osc_L :: "real \<Rightarrow> real" where
  "osc_L a = IS_formula (eps osc_engine) 1 (mX osc_engine) (osc_X a)"

definition is_term :: "real \<Rightarrow> real" where
  "is_term r = r - ln r - 1"

definition osc_a :: "nat \<Rightarrow> real" where
  "osc_a k = (if even k then 2 else 1 / 2)"

definition osc_inv :: "nat \<Rightarrow> opt_state \<Rightarrow> bool" where
  "osc_inv n st \<longleftrightarrow>
     (\<exists>l. lrs st = [l] \<and> 15 / 10000 * (1 / 10) ^ n \<le> l \<and> (n \<le> 3 \<longrightarrow> l = 15 / 10000))
     \<and> alpha_v st = [osc_a (n - 1)]
     \<and> length (i_s_loss st) = n \<and> length (alpha_log st) = n
     \<and> (\<forall>k < n. i_s_loss st ! k = osc_L (osc_a k))
     \<and> (2 \<le> n \<longrightarrow> alpha_log st ! 0 = [2 - 15 / 10000 * (osc_P 2 * osc_Q 2)])"

text \<open>
  The same for \<open>stuck_engine\<close>: its additive model, its gradient and its loss as functions
  of the exponent, the exponent after a gradient step before clipping, and the states of
  its loop.
\<close>

definition stk_X :: "real \<Rightarrow> ndarray" where
  "stk_X a = NDArray [1, 1] [pw2 (375 * a)]"

definition stk_d :: "real \<Rightarrow> real" where
  "stk_d a = (pw2 (375 * a) - 1) / (pw2 (375 * a) + pw2 (- 52))\<^sup>2
             * (pw2 (375 * a) * ln (pw2 375 + pw2 (- 52)))"

definition stk_L :: "real \<Rightarrow> real" where
  "stk_L a = is_term ((1 + pw2 (- 52)) / (pw2 (375 * a) + pw2 (- 52)))"

definition stk_raw :: "real \<Rightarrow> real" where
  "stk_raw a = a - 15 / 10000 * stk_d a"

definition stk_st :: "real \<Rightarrow> real list \<Rightarrow> real list list \<Rightarrow> opt_state" where
  "stk_st a ls lg = \<lparr> alpha_v = [a], lrs = [15 / 10000], i_s_loss = ls, alpha_log = lg \<rparr>"

definition stk_final :: opt_state where
  "stk_final = stk_st (stk_raw (76 / 100))
            [stk_L (76 / 100), stk_L (1 / 2), stk_L (1 / 2), stk_L (1 / 2), stk_L (1 / 2),
             stk_L (1 / 2)]
            [[stk_raw (76 / 100)], [stk_raw (1 / 2)], [stk_raw (1 / 2)], [stk_raw (1 / 2)],
             [stk_raw (1 / 2)], [1 / 2]]"

section \<open>Elementwise operations on arrays of one shape\<close>

text \<open>
  On two well-formed arrays of the same shape, and on an array and a scalar, the
  broadcasting operation is the pointwise one.
\<close>

lemma bshape_rev_same: "bshape_rev s s = Some s"
  by (induction s) auto

lemma bshape_same: "bshape s s = Some s"
  by (simp add: bshape_def bshape_rev_same)

lemma bshape_rev_Nil2: "bshape_rev s [] = Some s"
  by (cases s) auto

lemma bshape_scalar_l: "bshape [] s = Some s"
  by (simp add: bshape_def)

lemma bshape_scalar_r: "bshape s [] = Some s"
  by (simp add: bshape_def bshape_rev_Nil2)

lemma concat_chop: "length xs = n * k \<Longrightarrow> concat (chop n k xs) = xs"
  by (induction k arbitrary: xs) auto

lemma length_chop: "length xs = n * k \<Longrightarrow> \<forall>c \<in> set (chop n k xs). length c = n"
proof (induction k arbitrary: xs)
  case 0
  then show ?case by simp
next
  case (Suc k)
  have "length (drop n xs) = n * k" using Suc.prems by simp
  from Suc.IH [OF this] Suc.prems show ?case by simp
qed

lemma expand_same: "length xs = prod_list s \<Longrightarrow> expand s s xs = xs"
proof (induction s arbitrary: xs)
  case Nil
  then show ?case by simp
next
  case (Cons a s)
  have len: "length xs = prod_list s * a" using Cons.prems by (simp add: mult.commute)
  have "map (expand s s) (chop (prod_list s) a xs) = chop (prod_list s) a xs"
    using length_chop [OF len] Cons.IH by (simp add: map_idI)
  then show ?case using concat_chop [OF len] by simp
qed

lemma concat_replicate_replicate: "concat (replicate t (replicate p x)) = replicate (t * p) x"
  by (induction t) (auto simp: replicate_add)

lemma expand_ones: "expand s (replicate (length s) (Suc 0)) [x] = replicate (prod_list s) x"
proof (induction s)
  case Nil
  then show ?case by simp
next
  case (Cons t ts)
  show ?case
  proof (cases "t = 1")
    case True
    then show ?thesis using Cons.IH by simp
  next
    case False
    then show ?thesis using Cons.IH by (simp add: concat_replicate_replicate)
  qed
qed

lemma map2_replicate_l: "length ys = n \<Longrightarrow> map2 f (replicate n x) ys = map (f x) ys"
  by (induction ys arbitrary: n) auto

lemma map2_replicate_r: "length xs = n \<Longrightarrow> map2 f xs (replicate n y) = map (\<lambda>x. f x y) xs"
  by (induction xs arbitrary: n) auto

lemma bop_same_shape:
  "wf a \<Longrightarrow> wf b \<Longrightarrow> shape a = shape b \<Longrightarrow>
   bop f a b = Inr (NDArray (shape a) (map2 f (elems a) (elems b)))"
  by (simp add: bop_def bshape_same broadcast_to_def wf_def expand_same)

lemma bop_scalar_l:
  "wf b \<Longrightarrow> bop f (scalar x) b = Inr (NDArray (shape b) (map (f x) (elems b)))"
  by (simp add: bop_def scalar_def bshape_scalar_l broadcast_to_def wf_def expand_same
      expand_ones map2_replicate_l)

lemma bop_scalar_r:
  "wf a \<Longrightarrow> bop f a (scalar y) = Inr (NDArray (shape a) (map (\<lambda>x. f x y) (elems a)))"
  by (simp add: bop_def scalar_def bshape_scalar_r broadcast_to_def wf_def expand_same
      expand_ones map2_replicate_r)

lemma wf_NDArray [simp]: "wf (NDArray s xs) \<longleftrightarrow> length xs = prod_list s"
  by (simp add: wf_def)




lemma length_chop_list [simp]: "length (chop n k xs) = k"
  by (induction k arbitrary: xs) simp_all








section \<open>Rounding to the nearest double\<close>

text \<open>Powers of two.\<close>

lemma pw2_pos [simp]: "0 < pw2 k" by (simp add: pw2_def)
lemma pw2_nonneg [simp]: "0 \<le> pw2 k" by (simp add: pw2_def)
lemma pw2_neq0 [simp]: "pw2 k \<noteq> 0" by (simp add: pw2_def)
lemma pw2_add: "pw2 a * pw2 b = pw2 (a + b)" by (simp add: pw2_def powr_add)
lemma pw2_le [simp]: "pw2 a \<le> pw2 b \<longleftrightarrow> a \<le> b" by (simp add: pw2_def)
lemma pw2_less [simp]: "pw2 a < pw2 b \<longleftrightarrow> a < b" by (simp add: pw2_def)
lemma pw2_powr: "pw2 k powr a = pw2 (k * a)" by (simp add: pw2_def powr_powr)
lemma pw2_inverse: "inverse (pw2 k) = pw2 (- k)" by (simp add: pw2_def powr_minus)
lemma pw2_divide: "pw2 a / pw2 b = pw2 (a - b)" by (simp add: pw2_def powr_diff)
lemma pw2_0 [simp]: "pw2 0 = 1" by (simp add: pw2_def)
lemma pw2_1 [simp]: "pw2 1 = 2" by (simp add: pw2_def)
lemma pw2_square: "(pw2 k)\<^sup>2 = pw2 (2 * k)"
  by (simp add: power2_eq_square pw2_add)
lemma ln_pw2: "ln (pw2 k) = k * ln 2" by (simp add: pw2_def ln_powr)
lemma pw2_ge1: "0 \<le> k \<Longrightarrow> 1 \<le> pw2 k" using pw2_le [of 0 k] by (simp del: pw2_le)
lemma pw2_sum_le: "a \<le> b \<Longrightarrow> pw2 a + pw2 b \<le> pw2 (b + 1)"
proof -
  assume "a \<le> b"
  then have "pw2 a \<le> pw2 b" by simp
  moreover have "pw2 (b + 1) = 2 * pw2 b" by (simp add: pw2_add [symmetric] mult.commute)
  ultimately show ?thesis by simp
qed

lemma pw2_nat: "pw2 (real n) = 2 ^ n" by (simp add: pw2_def powr_realpow)
lemma pw2_neg_nat: "pw2 (- real n) = 1 / 2 ^ n"
  by (simp add: pw2_def powr_minus powr_realpow divide_inverse)

lemma eps_pw2: "machine_eps = pw2 (- 52)"
  using pw2_neg_nat [of 52] by (simp add: machine_eps_def)

lemma pw2_numeral: "pw2 (numeral n) = 2 ^ numeral n"
  by (simp add: pw2_def)

lemma pw2_neg_numeral: "pw2 (- numeral n) = 1 / 2 ^ numeral n"
  using powr_neg_numeral [of 2 n] by (simp add: pw2_def)

lemma pw2_int_add: "pw2 (of_int a) * pw2 (of_int b) = pw2 (of_int (a + b))"
  by (simp add: pw2_add)

lemma pw2_of_nat: "pw2 (of_int (int n)) = 2 ^ n"
  using pw2_nat [of n] by simp

lemma pw2_int_nonneg: "0 \<le> j \<Longrightarrow> pw2 (of_int j) = of_int (2 ^ nat j)"
  using pw2_of_nat [of "nat j"] by simp

lemma rint_of_int [simp]: "rint (of_int n) = n"
  by (simp add: rint_def)


lemma rint_ge: "of_int n \<le> y \<Longrightarrow> n \<le> rint y"
proof -
  assume "of_int n \<le> y"
  then have "n \<le> \<lfloor>y\<rfloor>" by (simp add: le_floor_iff)
  then show ?thesis unfolding rint_def Let_def by auto
qed

lemma rint_le: "y \<le> of_int n \<Longrightarrow> rint y \<le> n"
proof (cases "y = of_int n")
  case True
  then show ?thesis by simp
next
  case False
  assume "y \<le> of_int n"
  with False have "y < of_int n" by simp
  then have "\<lfloor>y\<rfloor> < n" by (simp add: floor_less_iff)
  then show ?thesis unfolding rint_def Let_def by auto
qed

lemma rint_add_small: "0 \<le> d \<Longrightarrow> d < 1 / 2 \<Longrightarrow> rint (of_int n + d) = n"
proof -
  assume d: "0 \<le> d" "d < 1 / 2"
  then have f: "\<lfloor>of_int n + d\<rfloor> = n" by (simp add: floor_unique)
  show ?thesis using d by (simp add: rint_def f)
qed

lemma rint_minus: "rint (- y) = - rint y"
proof (cases "y = of_int \<lfloor>y\<rfloor>")
  case True
  then obtain n where "y = of_int n" by blast
  then show ?thesis by (simp flip: of_int_minus)
next
  case False
  define f where "f = \<lfloor>y\<rfloor>"
  define d where "d = y - of_int f"
  have a: "of_int \<lfloor>y\<rfloor> \<le> y" by (rule of_int_floor_le)
  have b: "y < of_int \<lfloor>y\<rfloor> + 1" by (rule real_of_int_floor_add_one_gt)
  have d: "0 < d" "d < 1"
    unfolding d_def f_def using a b False by linarith+
  have y: "y = of_int f + d" by (simp add: d_def)
  have "\<lfloor>- y\<rfloor> = - f - 1"
    using d unfolding y by (intro floor_unique) simp_all
  then have m: "rint (- y) = (if 1 - d < 1 / 2 \<or> (1 - d = 1 / 2 \<and> even (- f - 1)) then - f - 1 else - f)"
    by (simp add: rint_def Let_def y)
  have p: "rint y = (if d < 1 / 2 \<or> (d = 1 / 2 \<and> even f) then f else f + 1)"
    unfolding d_def f_def rint_def Let_def by (rule refl)
  show ?thesis unfolding m p using d by auto
qed

lemma rint_0 [simp]: "rint 0 = 0"
  by (simp add: rint_def)

lemma ulp_pos [simp]: "0 < ulp x"
  by (simp add: ulp_def)

lemma ulp_neq0 [simp]: "ulp x \<noteq> 0"
  using ulp_pos [of x] by linarith

lemma ulp_nonneg [simp]: "0 \<le> ulp x"
  using ulp_pos [of x] by linarith

lemma expo_ge: "- 1022 \<le> expo x"
  by (simp add: expo_def)

lemma expo_eqI:
  assumes "pw2 (of_int k) \<le> \<bar>x\<bar>" and "\<bar>x\<bar> < pw2 (of_int k + 1)" and "- 1022 \<le> k"
  shows "expo x = k"
proof -
  have pos: "0 < \<bar>x\<bar>" using assms(1) pw2_pos [of "of_int k"] by linarith
  have "\<lfloor>log 2 \<bar>x\<bar>\<rfloor> = k"
    using assms(1,2) pos by (subst floor_log_eq_powr_iff) (simp_all add: pw2_def)
  then show ?thesis using assms(3) pos by (simp add: expo_def)
qed

lemma floor_log2_bounds:
  assumes "x \<noteq> 0"
  shows "pw2 (of_int \<lfloor>log 2 \<bar>x\<bar>\<rfloor>) \<le> \<bar>x\<bar>" and "\<bar>x\<bar> < pw2 (of_int \<lfloor>log 2 \<bar>x\<bar>\<rfloor> + 1)"
  using floor_log_eq_powr_iff [of "\<bar>x\<bar>" 2 "\<lfloor>log 2 \<bar>x\<bar>\<rfloor>"] assms by (simp_all add: pw2_def)

lemma expo_normal:
  assumes "pw2 (- 1022) \<le> \<bar>x\<bar>"
  shows "pw2 (of_int (expo x)) \<le> \<bar>x\<bar>"
proof -
  have pos: "0 < \<bar>x\<bar>" using assms pw2_pos [of "- 1022"] by linarith
  then have nz: "x \<noteq> 0" by auto
  have "pw2 (- 1022) < pw2 (of_int \<lfloor>log 2 \<bar>x\<bar>\<rfloor> + 1)"
    using assms floor_log2_bounds(2) [OF nz] by linarith
  then have "(- 1022 :: real) < of_int \<lfloor>log 2 \<bar>x\<bar>\<rfloor> + 1" by (simp only: pw2_less)
  then have "- 1022 \<le> \<lfloor>log 2 \<bar>x\<bar>\<rfloor>" by linarith
  then have "expo x = \<lfloor>log 2 \<bar>x\<bar>\<rfloor>" using nz by (simp add: expo_def)
  then show ?thesis using floor_log2_bounds(1) [OF nz] by simp
qed

lemma expo_upper: "\<bar>x\<bar> < pw2 (of_int (expo x) + 1)"
proof (cases "x = 0")
  case True
  then show ?thesis by simp
next
  case False
  have "pw2 (of_int \<lfloor>log 2 \<bar>x\<bar>\<rfloor> + 1) \<le> pw2 (of_int (expo x) + 1)"
    using False by (simp add: expo_def)
  then show ?thesis using floor_log2_bounds(2) [OF False] by linarith
qed

lemma expo_subnormal: "\<bar>x\<bar> < pw2 (- 1022) \<Longrightarrow> expo x = - 1022"
proof (cases "x = 0")
  case True
  then show ?thesis by (simp add: expo_def)
next
  case False
  assume "\<bar>x\<bar> < pw2 (- 1022)"
  then have "pw2 (of_int \<lfloor>log 2 \<bar>x\<bar>\<rfloor>) < pw2 (- 1022)"
    using floor_log2_bounds(1) [OF False] by linarith
  then have "of_int \<lfloor>log 2 \<bar>x\<bar>\<rfloor> < (- 1022 :: real)" by (simp only: pw2_less)
  then have "\<lfloor>log 2 \<bar>x\<bar>\<rfloor> < - 1022" by linarith
  then show ?thesis using False by (simp add: expo_def)
qed

lemma expo_le:
  assumes "\<bar>x\<bar> \<le> pw2 (of_int k)" and "- 1022 \<le> k"
  shows "expo x \<le> k"
proof (cases "pw2 (- 1022) \<le> \<bar>x\<bar>")
  case True
  have "pw2 (of_int (expo x)) \<le> pw2 (of_int k)"
    using expo_normal [OF True] assms(1) by linarith
  then have "(of_int (expo x) :: real) \<le> of_int k" by (simp only: pw2_le)
  then show ?thesis by linarith
next
  case False
  then show ?thesis using expo_subnormal [of x] assms(2) by simp
qed

lemma expo_minus [simp]: "expo (- x) = expo x"
  by (simp add: expo_def)

lemma ulp_minus [simp]: "ulp (- x) = ulp x"
  by (simp add: ulp_def)

lemma rnd_minus: "rnd (- x) = - rnd x"
  by (simp add: rnd_def rint_minus)

lemma rnd_0 [simp]: "rnd 0 = 0"
  by (simp add: rnd_def)




text \<open>
  Rounding does not cross a power of two, and it leaves a rounded number alone: the
  results of the operations are doubles.
\<close>

lemma ulp_times:
  assumes "expo x \<le> k"
  shows "pw2 (of_int k) = of_int (2 ^ nat (k - expo x + 52)) * ulp x"
proof -
  have "pw2 (of_int (k - expo x + 52)) * pw2 (of_int (expo x) - 52) = pw2 (of_int k)"
    by (simp add: pw2_add)
  moreover have "pw2 (of_int (k - expo x + 52)) = of_int (2 ^ nat (k - expo x + 52))"
    using assms by (intro pw2_int_nonneg) simp
  ultimately show ?thesis by (simp add: ulp_def)
qed

lemma rnd_abs_le:
  assumes "\<bar>x\<bar> \<le> of_int N * ulp x"
  shows "\<bar>rnd x\<bar> \<le> of_int N * ulp x"
proof -
  have d: "\<bar>x\<bar> / ulp x \<le> of_int N"
    using assms by (simp add: pos_divide_le_eq)
  have "x / ulp x \<le> \<bar>x\<bar> / ulp x" and "(- \<bar>x\<bar>) / ulp x \<le> x / ulp x"
    by (intro divide_right_mono; simp)+
  with d have "x / ulp x \<le> of_int N" and "of_int (- N) \<le> x / ulp x"
    by simp_all
  then have "rint (x / ulp x) \<le> N" and "- N \<le> rint (x / ulp x)"
    by (auto intro: rint_le rint_ge)
  then have "\<bar>of_int (rint (x / ulp x)) :: real\<bar> \<le> of_int N"
    by (simp add: abs_le_iff)
  then have "\<bar>of_int (rint (x / ulp x)) :: real\<bar> * ulp x \<le> of_int N * ulp x"
    by (intro mult_right_mono) simp_all
  then show ?thesis by (simp add: rnd_def abs_mult abs_of_pos)
qed

lemma rnd_le_pow2:
  assumes "\<bar>x\<bar> \<le> pw2 (of_int k)" and "- 1022 \<le> k"
  shows "\<bar>rnd x\<bar> \<le> pw2 (of_int k)"
proof -
  have e: "expo x \<le> k" using assms by (rule expo_le)
  show ?thesis using rnd_abs_le [of x "2 ^ nat (k - expo x + 52)"] assms(1)
    unfolding ulp_times [OF e, symmetric] by simp
qed

lemma rnd_ge_pow2:
  assumes "pw2 (of_int k) \<le> x" and "- 1022 \<le> k"
  shows "pw2 (of_int k) \<le> rnd x"
proof -
  have pos: "0 < x" using assms(1) pw2_pos [of "of_int k"] by linarith
  have "pw2 (- 1022) \<le> pw2 (of_int k)" using assms(2) by simp
  then have n: "pw2 (- 1022) \<le> \<bar>x\<bar>" using assms(1) pos by linarith
  have lo: "pw2 (of_int (expo x)) \<le> x" using expo_normal [OF n] pos by simp
  have ax: "\<bar>x\<bar> = x" using pos by simp
  have "pw2 (of_int k) < pw2 (of_int (expo x) + 1)"
    using expo_upper [of x] assms(1) unfolding ax by linarith
  then have "(of_int k :: real) < of_int (expo x) + 1" by (simp only: pw2_less)
  then have ke: "k \<le> expo x" by linarith
  have p: "pw2 (of_int (expo x)) = of_int (2 ^ 52) * ulp x"
    using ulp_times [of x "expo x"] by simp
  have "of_int (2 ^ 52) \<le> x / ulp x"
    using lo unfolding p by (simp add: pos_le_divide_eq)
  then have "2 ^ 52 \<le> rint (x / ulp x)" by (rule rint_ge)
  then have "(of_int (2 ^ 52) :: real) \<le> of_int (rint (x / ulp x))" by linarith
  then have "of_int (2 ^ 52) * ulp x \<le> rnd x"
    unfolding rnd_def by (intro mult_right_mono) simp_all
  then have "pw2 (of_int (expo x)) \<le> rnd x" unfolding p .
  moreover have "pw2 (of_int k) \<le> pw2 (of_int (expo x))" using ke by simp
  ultimately show ?thesis by linarith
qed

lemma rnd_nonneg: "0 \<le> x \<Longrightarrow> 0 \<le> rnd x"
proof -
  assume "0 \<le> x"
  then have "of_int 0 \<le> x / ulp x" by simp
  then have "0 \<le> rint (x / ulp x)" by (rule rint_ge)
  then show ?thesis by (simp add: rnd_def)
qed

lemma rnd_fixI: "x = of_int n * ulp x \<Longrightarrow> rnd x = x"
proof -
  assume a: "x = of_int n * ulp x"
  then have "x / ulp x = (of_int n * ulp x) / ulp x" by (rule arg_cong)
  then have "x / ulp x = of_int n" by simp
  then have "rnd x = of_int n * ulp x" by (simp add: rnd_def)
  then show ?thesis using a by simp
qed

lemma rnd_idem_pos:
  assumes "0 \<le> x"
  shows "rnd (rnd x) = rnd x"
proof -
  define y where "y = rnd x"
  define n where "n = rint (x / ulp x)"
  have y: "y = of_int n * ulp x" by (simp add: y_def n_def rnd_def)
  have y0: "0 \<le> y" unfolding y_def using assms by (rule rnd_nonneg)
  have up: "\<bar>x\<bar> \<le> pw2 (of_int (expo x + 1))" using expo_upper [of x] by simp
  have e1: "- 1022 \<le> expo x + 1" using expo_ge [of x] by linarith
  have yle: "y \<le> pw2 (of_int (expo x) + 1)"
    using rnd_le_pow2 [OF up e1] y0 by (simp add: y_def)
  consider (top) "y = pw2 (of_int (expo x) + 1)"
    | (mid) "pw2 (of_int (expo x)) \<le> y" "y < pw2 (of_int (expo x) + 1)"
    | (low) "y < pw2 (of_int (expo x))"
    using yle by linarith
  then have "rnd y = y"
  proof cases
    case top
    have ey: "expo y = expo x + 1"
      using top y0 e1 by (intro expo_eqI) simp_all
    have "pw2 (of_int (expo x + 1)) = of_int (2 ^ nat (expo x + 1 - expo y + 52)) * ulp y"
      by (rule ulp_times) (simp add: ey)
    then have h: "pw2 (of_int (expo x) + 1) = of_int (2 ^ 52) * ulp y"
      by (simp add: ey)
    from top h have "y = of_int (2 ^ 52) * ulp y" by (rule trans)
    then show ?thesis by (rule rnd_fixI)
  next
    case mid
    have "expo y = expo x"
      using mid y0 expo_ge [of x] by (intro expo_eqI) simp_all
    then have "ulp y = ulp x" by (simp add: ulp_def)
    then show ?thesis using y by (intro rnd_fixI [of y n]) simp
  next
    case low
    have sub: "\<bar>x\<bar> < pw2 (- 1022)"
    proof (rule ccontr)
      assume "\<not> \<bar>x\<bar> < pw2 (- 1022)"
      then have "pw2 (- 1022) \<le> \<bar>x\<bar>" by simp
      then have "pw2 (of_int (expo x)) \<le> x" using expo_normal [of x] assms by simp
      then have "pw2 (of_int (expo x)) \<le> rnd x" using expo_ge [of x] by (rule rnd_ge_pow2)
      then show False using low by (simp add: y_def)
    qed
    then have ex: "expo x = - 1022" by (rule expo_subnormal)
    have "\<bar>y\<bar> < pw2 (- 1022)" using low y0 ex by simp
    then have "expo y = - 1022" by (rule expo_subnormal)
    then have "ulp y = ulp x" using ex by (simp add: ulp_def)
    then show ?thesis using y by (intro rnd_fixI [of y n]) simp
  qed
  then show ?thesis by (simp add: y_def)
qed

lemma rnd_idem [simp]: "rnd (rnd x) = rnd x"
proof (cases "0 \<le> x")
  case True
  then show ?thesis by (rule rnd_idem_pos)
next
  case False
  then have "rnd (rnd (- x)) = rnd (- x)" by (intro rnd_idem_pos) simp
  then show ?thesis by (simp add: rnd_minus)
qed

text \<open>
  Evaluation of the rounding on a number whose exponent is known; powers of two are
  doubles; a double of magnitude 4 or more absorbs the machine epsilon; twice a double
  is a double.
\<close>

lemma rnd_eval:
  assumes "pw2 (of_int k) \<le> \<bar>x\<bar>" and "\<bar>x\<bar> < pw2 (of_int k + 1)" and "- 1022 \<le> k"
  shows "rnd x = of_int (rint (x / pw2 (of_int k - 52))) * pw2 (of_int k - 52)"
  using expo_eqI [OF assms] by (simp add: rnd_def ulp_def)

lemma fl_finite: "\<bar>x\<bar> \<le> pw2 1023 \<Longrightarrow> fl x = Fin (rnd x)"
proof -
  assume "\<bar>x\<bar> \<le> pw2 1023"
  then have "\<bar>rnd x\<bar> \<le> pw2 (of_int 1023)" by (intro rnd_le_pow2) simp_all
  moreover have "pw2 (of_int 1023) < pw2 1024" by simp
  ultimately have "\<bar>rnd x\<bar> < pw2 1024" by linarith
  then show ?thesis by (simp add: fl_def)
qed

lemma fl_0 [simp]: "fl 0 = Fin 0"
  by (simp add: fl_def)

lemma rnd_pw2: "- 1022 \<le> k \<Longrightarrow> rnd (pw2 (of_int k)) = pw2 (of_int k)"
proof -
  assume k: "- 1022 \<le> k"
  have e: "expo (pw2 (of_int k)) = k" using k by (intro expo_eqI) simp_all
  have "pw2 (of_int k) = of_int (2 ^ nat (k - expo (pw2 (of_int k)) + 52)) * ulp (pw2 (of_int k))"
    by (rule ulp_times) (simp add: e)
  then show ?thesis by (rule rnd_fixI)
qed

lemma rnd_1 [simp]: "rnd 1 = 1"
  using rnd_pw2 [of 0] by simp

lemma pw2_m1: "pw2 (- 1) = 1 / 2"
proof -
  have "pw2 (- 1) = inverse (pw2 1)" by (rule pw2_inverse [symmetric])
  then show ?thesis by (simp add: inverse_eq_divide)
qed

lemma rnd_half [simp]: "rnd (1 / 2) = 1 / 2"
proof -
  have "rnd (pw2 (of_int (- 1))) = pw2 (of_int (- 1))" by (rule rnd_pw2) simp
  then show ?thesis by (simp add: pw2_m1)
qed

lemma rnd_eps: "rnd (pw2 (- 52)) = pw2 (- 52)"
  using rnd_pw2 [of "- 52"] by simp

lemma rnd_absorb:
  assumes fx: "rnd T = T" and n: "pw2 (- 1022) \<le> T" and d: "0 \<le> d" "d < ulp T / 2"
  shows "rnd (T + d) = T"
proof -
  define m where "m = rint (T / ulp T)"
  have T: "T = of_int m * ulp T" using fx by (simp add: rnd_def m_def)
  have pos: "0 < T" using n pw2_pos [of "- 1022"] by linarith
  have aT: "\<bar>T\<bar> = T" using pos by simp
  have lo: "pw2 (of_int (expo T)) \<le> T" using expo_normal [of T] n aT by simp
  have up: "T < pw2 (of_int (expo T) + 1)" using expo_upper [of T] aT by simp
  have p: "pw2 (of_int (expo T + 1)) = of_int (2 ^ 53) * ulp T"
    using ulp_times [of T "expo T + 1"] by simp
  have "of_int m * ulp T < of_int (2 ^ 53) * ulp T"
    using up T p by simp
  then have "(of_int m :: real) < of_int (2 ^ 53)" by (simp only: mult_less_cancel_right_pos [OF ulp_pos])
  then have "m + 1 \<le> 2 ^ 53" by linarith
  then have "(of_int (m + 1) :: real) \<le> of_int (2 ^ 53)" by (simp only: of_int_le_iff)
  then have "of_int (m + 1) * ulp T \<le> of_int (2 ^ 53) * ulp T"
    by (intro mult_right_mono) simp_all
  moreover have "of_int (m + 1) * ulp T = of_int m * ulp T + ulp T"
    by (simp add: algebra_simps)
  moreover have "pw2 (of_int (expo T) + 1) = of_int (2 ^ 53) * ulp T"
    using p by simp
  ultimately have "T + ulp T \<le> pw2 (of_int (expo T) + 1)"
    using T by linarith
  then have up': "T + d < pw2 (of_int (expo T) + 1)" using d ulp_pos [of T] by linarith
  have e: "expo (T + d) = expo T"
    using lo up' d pos expo_ge [of T] by (intro expo_eqI) simp_all
  then have u: "ulp (T + d) = ulp T" by (simp add: ulp_def)
  have "(T + d) / ulp T = T / ulp T + d / ulp T" by (simp add: add_divide_distrib)
  also have "T / ulp T = of_int m"
  proof -
    from T have "T / ulp T = (of_int m * ulp T) / ulp T" by (rule arg_cong)
    then show ?thesis by simp
  qed
  finally have q: "(T + d) / ulp T = of_int m + d / ulp T" .
  have "rint (of_int m + d / ulp T) = m"
    using d by (intro rint_add_small) (simp_all add: pos_divide_less_eq)
  then have "rnd (T + d) = of_int m * ulp T" by (simp add: rnd_def u q)
  then show ?thesis using T by simp
qed

lemma rnd_twice:
  assumes fx: "rnd T = T" and n: "pw2 (- 1022) \<le> \<bar>T\<bar>"
  shows "rnd (2 * T) = 2 * T"
proof -
  define m where "m = rint (T / ulp T)"
  have T: "T = of_int m * ulp T" using fx by (simp add: rnd_def m_def)
  have lo: "pw2 (of_int (expo T)) \<le> \<bar>T\<bar>" using expo_normal [of T] n by simp
  have up: "\<bar>T\<bar> < pw2 (of_int (expo T) + 1)" by (rule expo_upper)
  have two: "2 * pw2 (of_int (expo T)) = pw2 (of_int (expo T + 1))"
    "2 * pw2 (of_int (expo T) + 1) = pw2 (of_int (expo T + 1) + 1)"
    using pw2_add [of 1 "of_int (expo T)"] pw2_add [of 1 "of_int (expo T) + 1"]
    by (simp_all add: add.commute add.left_commute)
  have e: "expo (2 * T) = expo T + 1"
  proof (rule expo_eqI)
    show "pw2 (of_int (expo T + 1)) \<le> \<bar>2 * T\<bar>" using lo two(1) by (simp add: abs_mult)
    show "\<bar>2 * T\<bar> < pw2 (of_int (expo T + 1) + 1)" using up two(2) by (simp add: abs_mult)
    show "- 1022 \<le> expo T + 1" using expo_ge [of T] by linarith
  qed
  have u: "ulp (2 * T) = 2 * ulp T"
    using pw2_add [of 1 "of_int (expo T) - 52"] by (simp add: ulp_def e add.commute)
  from T have "2 * T = 2 * (of_int m * ulp T)" by (rule arg_cong)
  also have "\<dots> = of_int m * (2 * ulp T)" by simp
  also have "\<dots> = of_int m * ulp (2 * T)" by (simp only: u)
  finally show ?thesis by (rule rnd_fixI)
qed

lemma ulp_ge:
  assumes "pw2 (of_int k) \<le> \<bar>T\<bar>" and "- 1022 \<le> k"
  shows "pw2 (of_int k - 52) \<le> ulp T"
proof -
  have "pw2 (of_int k) < pw2 (of_int (expo T) + 1)"
    using expo_upper [of T] assms(1) by linarith
  then have "(of_int k :: real) < of_int (expo T) + 1" by (simp only: pw2_less)
  then have "k \<le> expo T" by linarith
  then show ?thesis by (simp add: ulp_def)
qed

lemma fl_double: "double x \<Longrightarrow> fl x = Fin x"
  by (simp add: fl_def double_def)

lemma double_0 [simp]: "double 0"
  by (simp add: double_def)

lemma double_1 [simp]: "double 1"
proof -
  have "(1::real) < pw2 1024" using pw2_less [of 0 1024] by (simp del: pw2_less)
  then show ?thesis by (simp add: double_def)
qed



lemma double_rnd: "\<bar>x\<bar> \<le> pw2 1023 \<Longrightarrow> double (rnd x)"
proof -
  assume "\<bar>x\<bar> \<le> pw2 1023"
  then have "\<bar>rnd x\<bar> \<le> pw2 (of_int 1023)" by (intro rnd_le_pow2) simp_all
  moreover have "pw2 (of_int 1023) < pw2 1024" by simp
  ultimately have "\<bar>rnd x\<bar> < pw2 1024" by linarith
  then show ?thesis by (simp add: double_def)
qed

lemma double_eps: "double machine_eps"
proof -
  have "pw2 (- 52) < pw2 1024" by simp
  then show ?thesis using rnd_eps by (simp add: double_def eps_pw2)
qed

lemma absorb_eps:
  assumes "rnd T = T" and "pw2 2 \<le> T"
  shows "rnd (T + machine_eps) = T"
proof (rule rnd_absorb)
  show "rnd T = T" by fact
  have "pw2 (- 1022) \<le> pw2 2" by simp
  then show "pw2 (- 1022) \<le> T" using assms(2) by linarith
  show "0 \<le> machine_eps" by (simp add: machine_eps_def)
  have "pw2 (of_int 2) \<le> \<bar>T\<bar>" using assms(2) by simp
  then have "pw2 (of_int 2 - 52) \<le> ulp T" by (rule ulp_ge) simp
  moreover have "pw2 (- 52) < pw2 (of_int 2 - 52) / 2"
    using pw2_divide [of "- 50" 1] by simp
  ultimately show "machine_eps < ulp T / 2" unfolding eps_pw2 by linarith
qed

lemma fl_rnd: "\<bar>rnd x\<bar> < pw2 1024 \<Longrightarrow> fl x = Fin (rnd x)"
  by (simp add: fl_def)

lemma fl_eval:
  assumes "pw2 (of_int k) \<le> \<bar>x\<bar>" and "\<bar>x\<bar> < pw2 (of_int k + 1)" and "- 1022 \<le> k" and "k \<le> 1022"
  shows "fl x = Fin (of_int (rint (x / pw2 (of_int k - 52))) * pw2 (of_int k - 52))"
proof -
  have "pw2 (of_int k + 1) \<le> pw2 1023" using assms(4) by simp
  then have "\<bar>x\<bar> \<le> pw2 1023" using assms(2) by linarith
  then show ?thesis using rnd_eval [OF assms(1-3)] by (simp add: fl_finite)
qed

lemmas pw2_eval = pw2_numeral pw2_neg_numeral pw2_m1



lemmas f64_ops_del = fadd.simps fmul.simps fdiv.simps

section \<open>Dispatch and error handling\<close>

lemmas mask_defs = set_mask_def bind_def bop_def bop_r_def bop_l_def bshape_def
  broadcast_to_def as_array_def uop_def scalar_def

text \<open>
  Claim C10. An engine whose method selector is none of the nine recognised names falls
  through every branch of \<^verbatim>\<open>__call__\<close>: the call raises nothing, leaves the engine as
  it was (no mask is computed, no apply step runs) and returns its output attribute,
  which is the empty list for an engine that comes from the constructor.
\<close>

theorem unknown_method_returns_initial_output:
  assumes "m \<notin> set [''Phase'', ''IRM'', ''IAM'', ''IBM'', ''UBBM'', ''Wiener'',
                      ''alphaWiener'', ''expMask'', ''MWF'']"
  shows "call pinv (e\<lparr>method_sel := m\<rparr>) reverse = (e\<lparr>method_sel := m\<rparr>, Inr (Out e))
       \<and> call pinv (init mx s n ps pn a m) reverse = (init mx s n ps pn a m, Inr (PyList []))
       \<and> mask_arr (init mx s n ps pn a m) = PyList []"
  using assms by (simp add: call_def init_def)

theorem unknown_method_returns_initial_output_witness:
  "''Median'' \<notin> set [''Phase'', ''IRM'', ''IAM'', ''IBM'', ''UBBM'', ''Wiener'',
                      ''alphaWiener'', ''expMask'', ''MWF'']
   \<and> call id (init (NDArray [1, 1] [3]) (NDArray [1, 1] [2]) (ND (NDArray [1, 1] [1]))
              (PyList []) (PyList []) (12 / 10) ''Median'') True
     = (init (NDArray [1, 1] [3]) (NDArray [1, 1] [2]) (ND (NDArray [1, 1] [1]))
              (PyList []) (PyList []) (12 / 10) ''Median'', Inr (PyList []))"
  using unknown_method_returns_initial_output
    [of "''Median''" id undefined True "NDArray [1, 1] [3]" "NDArray [1, 1] [2]"
        "ND (NDArray [1, 1] [1])" "PyList []" "PyList []" "12 / 10"]
  by simp

text \<open>
  Claim C7, as the code has it. \<^verbatim>\<open>__call__\<close> computes the exponential mask before it
  looks at the reverse flag. An engine configured with the method \<open>expMask\<close> and called
  with the reverse flag therefore always ends in an exception, and its output attribute
  keeps its old value (no filtered output is produced). When \<^verbatim>\<open>ExpM\<close> succeeds, the mask
  is stored and the exception is the \<^verbatim>\<open>ValueError\<close> of \<^verbatim>\<open>applyReverseMask\<close>, which the
  specification calls UnsupportedOperation; when \<^verbatim>\<open>ExpM\<close> itself raises (a residual that
  is a list has no \<^verbatim>\<open>clip\<close>, shapes that cannot be broadcast), the exception is that
  of \<^verbatim>\<open>ExpM\<close> and the engine is left as it was.
\<close>

theorem expMask_reverse_always_raises:
  assumes "method_sel e = ''expMask''"
  shows "\<exists>e' err. call pinv e True = (e', Inl err) \<and> Out e' = Out e
            \<and> (case ExpM e of
                  Inr e1 \<Rightarrow> err = UnsupportedOperation \<and> e' = e1
                | Inl x \<Rightarrow> err = x \<and> e' = e)"
proof (cases "ExpM e")
  case (Inl err)
  then show ?thesis using assms by (simp add: call_def run_def)
next
  case (Inr e1)
  then have m: "method_sel e1 = ''expMask''" and o: "Out e1 = Out e"
    using assms by (auto simp: ExpM_def set_mask_def bind_def split: sum.splits pyobj.splits)
  show ?thesis using assms Inr m o
    by (simp add: call_def run_def applyReverseMask_def UnsupportedOperation_def)
qed

theorem expMask_reverse_always_raises_witness:
  "method_sel exp_engine = ''expMask''
   \<and> ExpM exp_engine = Inr (exp_engine\<lparr>mask_arr := ND (NDArray [1, 1] [ln 2 / ln 4])\<rparr>)
   \<and> call id exp_engine True
       = (exp_engine\<lparr>mask_arr := ND (NDArray [1, 1] [ln 2 / ln 4])\<rparr>, Inl UnsupportedOperation)
   \<and> Out (exp_engine\<lparr>mask_arr := ND (NDArray [1, 1] [ln 2 / ln 4])\<rparr>) = PyList []"
proof -
  have m: "method_sel exp_engine = ''expMask''"
    by (simp add: exp_engine_def init_def)
  have x: "ExpM exp_engine = Inr (exp_engine\<lparr>mask_arr := ND (NDArray [1, 1] [ln 2 / ln 4])\<rparr>)"
    by (simp add: exp_engine_def init_def ExpM_def mask_defs np_power_def machine_eps_def)
  have o: "Out (exp_engine\<lparr>mask_arr := ND (NDArray [1, 1] [ln 2 / ln 4])\<rparr>) = PyList []"
    by (simp add: exp_engine_def init_def)
  from expMask_reverse_always_raises [OF m, of id] x m o show ?thesis
    by auto
qed

text \<open>
  Claim C7, as stated, fails: with the residual passed as a list, \<^verbatim>\<open>ExpM\<close> raises an
  \<^verbatim>\<open>AttributeError\<close> (the list has no method \<^verbatim>\<open>clip\<close>) before \<^verbatim>\<open>applyReverseMask\<close> is
  reached, so the call does not end in UnsupportedOperation.
\<close>

theorem expMask_reverse_list_residual_not_unsupported:
  "method_sel exp_list_engine = ''expMask''
   \<and> call id exp_list_engine True = (exp_list_engine, Inl AttributeError)
   \<and> AttributeError \<noteq> UnsupportedOperation"
  by (simp add: exp_list_engine_def init_def call_def run_def ExpM_def mask_defs np_power_def
      machine_eps_def UnsupportedOperation_def)

text \<open>
  Claim C2. The check of the Phase branch tests the target phase twice and the residual
  phase never. The engine below has a target phase of one element and the default
  residual phase \<^verbatim>\<open>[]\<close>: the call raises nothing, computes a mask (an empty one, the
  shapes \<open>(1, 1)\<close> and \<open>(0,)\<close> broadcast to \<open>(1, 0)\<close>) and returns an empty output.
\<close>

theorem phase_without_residual_phase_returns:
  "pY phase_engine = PyList []
   \<and> snd (call pinv phase_engine False) = Inr (ND (NDArray [1, 0] []))
   \<and> mask_arr (fst (call pinv phase_engine False)) = ND (NDArray [1, 0] [])"
  by (simp add: phase_engine_def call_def init_def run_def phaseSensitive_def applyMask_def
      size_nd_def mask_defs)

section \<open>The mask algorithms and the apply steps\<close>

lemma irm_elems:
  "length ys = length xs \<Longrightarrow>
   map2 (/) xs (map2 (+) (map ((+) c) xs) ys) = map2 (\<lambda>t r. t / (t + r + c)) xs (ys::real list)"
  by (simp add: list_eq_iff_nth_eq algebra_simps)

text \<open>
  Claim C8. For a non-negative target and a non-negative residual array of the same
  shape, \<^verbatim>\<open>IRM\<close> stores the mask \<open>target / (target + residual + eps)\<close>, element by
  element, and every element of that mask lies between 0 and 1.
\<close>

theorem IRM_ratio_in_unit_interval:
  assumes "nResidual e = ND r" and "wf (sTarget e)" and "wf r"
    and "shape r = shape (sTarget e)"
    and "\<forall>x \<in> set (elems (sTarget e)). 0 \<le> x" and "\<forall>x \<in> set (elems r). 0 \<le> x"
    and "0 < eps e"
  shows "IRM e = Inr (e\<lparr>mask_arr := ND (NDArray (shape (sTarget e))
                   (map2 (\<lambda>t r. t / (t + r + eps e)) (elems (sTarget e)) (elems r)))\<rparr>)
       \<and> (\<forall>m \<in> set (map2 (\<lambda>t r. t / (t + r + eps e)) (elems (sTarget e)) (elems r)).
             0 \<le> m \<and> m \<le> 1)"
proof
  have len: "length (elems r) = length (elems (sTarget e))"
    using assms by (simp add: wf_def)
  show "IRM e = Inr (e\<lparr>mask_arr := ND (NDArray (shape (sTarget e))
                   (map2 (\<lambda>t r. t / (t + r + eps e)) (elems (sTarget e)) (elems r)))\<rparr>)"
    using assms len
    by (simp add: IRM_def set_mask_def bind_def bop_r_def as_array_def bop_scalar_l
        bop_same_shape irm_elems wf_def)
  show "\<forall>m \<in> set (map2 (\<lambda>t r. t / (t + r + eps e)) (elems (sTarget e)) (elems r)).
             0 \<le> m \<and> m \<le> 1"
  proof
    fix m assume "m \<in> set (map2 (\<lambda>t r. t / (t + r + eps e)) (elems (sTarget e)) (elems r))"
    then obtain t x where tx: "(t, x) \<in> set (zip (elems (sTarget e)) (elems r))"
      and m: "m = t / (t + x + eps e)" by auto
    have "0 \<le> t" "0 \<le> x" using tx assms(5,6) by (auto dest: set_zip_leftD set_zip_rightD)
    then show "0 \<le> m \<and> m \<le> 1" using m assms(7) by (simp add: divide_le_eq)
  qed
qed

theorem IRM_ratio_in_unit_interval_witness:
  "IRM irm_engine
   = Inr (irm_engine\<lparr>mask_arr := ND (NDArray [1, 2]
            [2 / (2 + 2 + machine_eps), 0 / (0 + 3 + machine_eps)])\<rparr>)
   \<and> 0 \<le> 2 / (2 + 2 + machine_eps) \<and> 2 / (2 + 2 + machine_eps) \<le> 1"
  using IRM_ratio_in_unit_interval [of irm_engine "NDArray [1, 2] [2, 3]"]
  by (simp add: irm_engine_def init_def machine_eps_def wf_def)

section \<open>The apply steps and the Wiener mask in 64-bit floats\<close>

text \<open>
  In exact arithmetic the two apply steps split the mixture: on a mask of the shape of
  the mixture, \<open>mask \<sqdot> mixture + (1 - mask) \<sqdot> mixture\<close> is the mixture.
\<close>

lemma apply_elems:
  "length ms = length xs \<Longrightarrow>
   map2 (+) (map2 (*) ms xs) (map2 (*) (map ((-) 1) ms) xs) = (xs::real list)"
  by (simp add: list_eq_iff_nth_eq algebra_simps)

lemma apply_plus_reverse_exact_arithmetic:
  assumes "method_sel e \<noteq> ''expMask''" and "mask_arr e = ND m"
    and "wf m" and "wf (mX e)" and "shape m = shape (mX e)"
  shows "\<exists>e1 e2 o1 o2. applyMask e = Inr e1 \<and> Out e1 = ND o1
           \<and> applyReverseMask e = Inr e2 \<and> Out e2 = ND o2
           \<and> bop (+) o1 o2 = Inr (mX e)"
proof -
  have len: "length (elems m) = length (elems (mX e))"
    using assms by (simp add: wf_def)
  have a: "applyMask e = Inr (e\<lparr>Out := ND (NDArray (shape m) (map2 (*) (elems m) (elems (mX e))))\<rparr>)"
    using assms by (simp add: applyMask_def bop_l_def as_array_def bind_def bop_same_shape)
  have r: "applyReverseMask e
       = Inr (e\<lparr>Out := ND (NDArray (shape m) (map2 (*) (map ((-) 1) (elems m)) (elems (mX e))))\<rparr>)"
    using assms
    by (simp add: applyReverseMask_def bind_def bop_scalar_l bop_same_shape wf_def)
  have s: "bop (+) (NDArray (shape m) (map2 (*) (elems m) (elems (mX e))))
                   (NDArray (shape m) (map2 (*) (map ((-) 1) (elems m)) (elems (mX e))))
           = Inr (mX e)"
    using assms len by (simp add: bop_same_shape wf_def apply_elems)
  show ?thesis using a r s by simp
qed








lemma e1: "fadd (Fin machine_eps) (Fin 2) = Fin 2"
  using fl_eval [of 1 "machine_eps + 2"] by (simp add: machine_eps_def pw2_eval rint_def)

lemma e2: "fadd (Fin 2) (Fin 9) = Fin 11"
  using fl_eval [of 3 "11"] by (simp add: pw2_eval rint_def)







lemma wiener_ratio_zero: "wiener_ratio (Fin machine_eps) (Fin 0) = Fin 1"
proof -
  have e: "fl machine_eps = Fin machine_eps" using double_eps by (rule fl_double)
  have n: "machine_eps \<noteq> 0" by (simp add: machine_eps_def)
  have o: "fl 1 = Fin 1" by (rule fl_double) simp
  show ?thesis by (simp add: wiener_ratio_def fsquare_def e n o)
qed

lemma wiener_ratio_half:
  assumes "2 \<le> \<bar>v\<bar>" and "\<bar>v\<bar> \<le> pw2 511"
  shows "wiener_ratio (Fin machine_eps) (Fin v) = Fin (1 / 2)"
proof -
  define T where "T = rnd (v * v)"
  have sq: "v * v = \<bar>v\<bar> * \<bar>v\<bar>" by simp
  have "2 * 2 \<le> \<bar>v\<bar> * \<bar>v\<bar>" using assms(1) by (intro mult_mono) simp_all
  then have lo: "pw2 (of_int 2) \<le> v * v" unfolding sq by (simp add: pw2_numeral)
  have "\<bar>v\<bar> * \<bar>v\<bar> \<le> pw2 511 * pw2 511" using assms(2) by (intro mult_mono) simp_all
  then have hi: "\<bar>v * v\<bar> \<le> pw2 (of_int 1022)" by (simp add: pw2_add abs_mult)
  have T4: "pw2 2 \<le> T" using rnd_ge_pow2 [OF lo] by (simp add: T_def)
  have Thi: "\<bar>T\<bar> \<le> pw2 1022" using rnd_le_pow2 [OF hi] by (simp add: T_def)
  have Tpos: "0 < T" using T4 pw2_pos [of 2] by linarith
  have fT: "rnd T = T" by (simp add: T_def)
  have b: "pw2 1022 < pw2 1024" "2 * pw2 1022 = pw2 1023" "pw2 1023 < pw2 1024"
    using pw2_add [of 1 1022] by simp_all
  have Tfin: "\<bar>T\<bar> < pw2 1024" using Thi b(1) by linarith
  have T2fin: "\<bar>2 * T\<bar> < pw2 1024" using Thi b(2,3) by linarith
  have s1: "fsquare (Fin v) = Fin T"
    using Tfin unfolding T_def fsquare_def by (simp add: fl_rnd)
  have r2: "rnd (T + machine_eps) = T" using fT T4 by (rule absorb_eps)
  have s2: "fadd (Fin T) (Fin machine_eps) = Fin T"
    using Tfin fl_rnd [of "T + machine_eps"] unfolding r2 by simp
  have f2: "rnd (2 * T) = 2 * T"
  proof (rule rnd_twice [OF fT])
    have "pw2 (- 1022) \<le> pw2 2" by simp
    then show "pw2 (- 1022) \<le> \<bar>T\<bar>" using T4 by linarith
  qed
  have s3: "fadd (Fin T) (Fin T) = Fin (2 * T)"
    using T2fin fl_rnd [of "2 * T"] unfolding f2 by simp
  have "pw2 2 \<le> 2 * T" using T4 Tpos by linarith
  from absorb_eps [OF f2 this] have r4: "rnd (machine_eps + 2 * T) = 2 * T"
    by (simp add: add.commute)
  have s4: "fadd (Fin machine_eps) (Fin (2 * T)) = Fin (2 * T)"
    using T2fin fl_rnd [of "machine_eps + 2 * T"] unfolding r4 by simp
  have h: "fl (1 / 2) = Fin (1 / 2)"
  proof (rule fl_double)
    have "(1 / 2 :: real) < pw2 1024"
      using pw2_less [of "- 1" 1024] by (simp add: pw2_m1 del: pw2_less)
    then show "double (1 / 2)" by (simp add: double_def)
  qed
  have s5: "fdiv (Fin T) (Fin (2 * T)) = Fin (1 / 2)"
    using Tpos h by simp
  show ?thesis by (simp only: wiener_ratio_def s1 s2 s3 s4 s5)
qed

lemma wiener_ratio_elems:
  "map2 fdiv (map (\<lambda>x. fadd x c) (map fsquare xs))
             (map (fadd c) (map2 fadd (map fsquare xs) (map fsquare xs)))
   = map (wiener_ratio c) xs"
  by (simp add: list_eq_iff_nth_eq wiener_ratio_def)

lemma Wiener_f64_self:
  assumes "nResidual e = PyList [sTarget e]" and "wf (sTarget e)"
  shows "Wiener_f64 e = Inr (e\<lparr>mask_arr := ND (NDArray (shape (sTarget e))
                           (map (wiener_ratio (eps e)) (elems (sTarget e))))\<rparr>)"
proof -
  have w: "wf (uop fsquare (sTarget e))" and s: "shape (uop fsquare (sTarget e)) = shape (sTarget e)"
    and el: "elems (uop fsquare (sTarget e)) = map fsquare (elems (sTarget e))"
    using assms(2) by (simp_all add: uop_def wf_def)
  show ?thesis
    using assms(1) w s el wiener_ratio_elems [of "eps e" "elems (sTarget e)"]
    by (simp add: Wiener_f64_def set_mask_def bind_def len_def item_def Let_def
        bop_scalar_l bop_scalar_r bop_same_shape wf_def)
qed

text \<open>
  Claim C5, as the code has it. With a single residual component, passed as a list of
  one array that is equal to the target, \<^verbatim>\<open>Wiener\<close> stores for every element \<open>t\<close> of the
  target the quotient \<open>(t\<^sup>2 + eps) / (eps + (t\<^sup>2 + t\<^sup>2))\<close> of doubles: the epsilon is
  added to the numerator as well as to the denominator. Where \<open>2 \<le> |t| \<le> 2\<^sup>5\<^sup>1\<^sup>1\<close> the
  rounding absorbs the epsilon in both places and the mask is exactly one half; where
  \<open>t = 0\<close> it is \<open>eps / eps = 1\<close>.
\<close>

theorem Wiener_equal_residual_rounded:
  assumes "nResidual e = PyList [sTarget e]" and "wf (sTarget e)" and "eps e = Fin machine_eps"
  shows "\<exists>ms. Wiener_f64 e = Inr (e\<lparr>mask_arr := ND (NDArray (shape (sTarget e)) ms)\<rparr>)
           \<and> ms = map (wiener_ratio (eps e)) (elems (sTarget e))
           \<and> (\<forall>i < length ms. \<forall>v. elems (sTarget e) ! i = Fin v \<longrightarrow>
                 (v = 0 \<longrightarrow> ms ! i = Fin 1)
               \<and> (2 \<le> \<bar>v\<bar> \<and> \<bar>v\<bar> \<le> 2 ^ 511 \<longrightarrow> ms ! i = Fin (1 / 2)))"
proof -
  let ?ms = "map (wiener_ratio (eps e)) (elems (sTarget e))"
  have w: "Wiener_f64 e = Inr (e\<lparr>mask_arr := ND (NDArray (shape (sTarget e)) ?ms)\<rparr>)"
    using assms(1,2) by (rule Wiener_f64_self)
  have p: "\<forall>i < length ?ms. \<forall>v. elems (sTarget e) ! i = Fin v \<longrightarrow>
                 (v = 0 \<longrightarrow> ?ms ! i = Fin 1)
               \<and> (2 \<le> \<bar>v\<bar> \<and> \<bar>v\<bar> \<le> 2 ^ 511 \<longrightarrow> ?ms ! i = Fin (1 / 2))"
    using wiener_ratio_zero wiener_ratio_half by (auto simp: assms(3) pw2_numeral)
  from w p show ?thesis by blast
qed

theorem Wiener_equal_residual_rounded_witness:
  "Wiener_f64 self_engine
   = Inr (self_engine\<lparr>mask_arr := ND (NDArray [1, 3] [Fin 1, Fin (1 / 2), Fin (1 / 2)])\<rparr>)"
proof -
  have h: "nResidual self_engine = PyList [sTarget self_engine]" "wf (sTarget self_engine)"
    "eps self_engine = Fin machine_eps"
    and s: "elems (sTarget self_engine) = [Fin 0, Fin 2, Fin 3]"
      "shape (sTarget self_engine) = [1, 3]"
    by (simp_all add: self_engine_def init_f64_def)
  from Wiener_equal_residual_rounded [OF h] obtain ms where
    w: "Wiener_f64 self_engine = Inr (self_engine\<lparr>mask_arr := ND (NDArray (shape (sTarget self_engine)) ms)\<rparr>)"
    and m: "ms = map (wiener_ratio (eps self_engine)) (elems (sTarget self_engine))"
    and p: "\<forall>i < length ms. \<forall>v. elems (sTarget self_engine) ! i = Fin v \<longrightarrow>
                 (v = 0 \<longrightarrow> ms ! i = Fin 1)
               \<and> (2 \<le> \<bar>v\<bar> \<and> \<bar>v\<bar> \<le> 2 ^ 511 \<longrightarrow> ms ! i = Fin (1 / 2))"
    by blast
  have l: "length ms = 3" using m s by simp
  have "ms ! 0 = Fin 1" using p l s by simp
  moreover have "ms ! 1 = Fin (1 / 2)" using p [rule_format, of 1 2] l s by simp
  moreover have "ms ! 2 = Fin (1 / 2)" using p [rule_format, of 2 3] l s by simp
  ultimately have "ms = [Fin 1, Fin (1 / 2), Fin (1 / 2)]"
    using l by (simp add: list_eq_iff_nth_eq nth_Cons' numeral_3_eq_3 numeral_2_eq_2 less_Suc_eq)
  then show ?thesis using w s by simp
qed

lemma c1: "fsquare (Fin 0) = Fin 0" by (simp add: fsquare_def)
lemma c2: "fadd (Fin 0) (Fin 0) = Fin 0" by simp
lemma c3: "fadd (Fin 0) (Fin machine_eps) = Fin machine_eps"
  using fl_double [OF double_eps] by simp
lemma c4: "fadd (Fin machine_eps) (Fin 0) = Fin machine_eps"
  using fl_double [OF double_eps] by simp
lemma c5: "fdiv (Fin machine_eps) (Fin machine_eps) = Fin 1"
  using fl_double [OF double_1] by (simp add: machine_eps_def)

lemma r1: "fsquare (Fin 1) = Fin 1"
  using fl_double [OF double_1] by (simp add: fsquare_def)
lemma r2: "fadd (Fin 1) (Fin 1) = Fin 2"
  using fl_eval [of 1 2] by (simp add: pw2_eval rint_def)
lemma r3: "fadd (Fin 2) (Fin 1) = Fin 3"
  using fl_eval [of 1 3] by (simp add: pw2_eval rint_def)
lemma r4: "fadd (Fin 1) (Fin machine_eps) = Fin (1 + 1 / 2 ^ 52)"
  using fl_eval [of 0 "1 + machine_eps"] by (simp add: machine_eps_def pw2_eval rint_def)
lemma r5: "fadd (Fin machine_eps) (Fin 3) = Fin 3"
  using fl_eval [of 1 "machine_eps + 3"] by (simp add: machine_eps_def pw2_eval rint_def)
lemma r6: "fdiv (Fin (1 + 1 / 2 ^ 52)) (Fin 3) = Fin (6004799503160663 / 2 ^ 54)"
  using fl_eval [of "- 2" "(1 + 1 / 2 ^ 52) / 3"] by (simp add: pw2_eval rint_def)

text \<open>
  Claim C5, as stated, fails: on a silent target and a silent residual the mask is 1,
  not one half. It also fails when the single residual component is passed as the array
  itself and not in a list: \<^verbatim>\<open>len\<close> then counts the rows of the array and the loop over
  the components adds them up, so that for two rows of ones the mask is the double
  nearest to \<open>(1 + eps) / 3\<close>.
\<close>

theorem Wiener_equal_residual_not_half:
  "nResidual silent_engine_f64 = PyList [sTarget silent_engine_f64]
   \<and> Wiener_f64 silent_engine_f64
       = Inr (silent_engine_f64\<lparr>mask_arr := ND (NDArray [1, 1] [Fin 1])\<rparr>)
   \<and> Fin 1 \<noteq> Fin (1 / 2)
   \<and> nResidual rows_engine = ND (sTarget rows_engine)
   \<and> Wiener_f64 rows_engine
       = Inr (rows_engine\<lparr>mask_arr := ND (NDArray [2, 1]
           [Fin (6004799503160663 / 2 ^ 54), Fin (6004799503160663 / 2 ^ 54)])\<rparr>)
   \<and> Fin (6004799503160663 / 2 ^ 54) \<noteq> Fin (1 / 2)"
proof (intro conjI)
  show "nResidual silent_engine_f64 = PyList [sTarget silent_engine_f64]"
    by (simp add: silent_engine_f64_def init_f64_def)
  have "Wiener_f64 silent_engine_f64
        = Inr (silent_engine_f64\<lparr>mask_arr := ND (NDArray [1, 1]
            [fdiv (fadd (fsquare (Fin 0)) (Fin machine_eps))
                  (fadd (Fin machine_eps) (fadd (fsquare (Fin 0)) (fsquare (Fin 0))))])\<rparr>)"
    by (simp add: Wiener_f64_def silent_engine_f64_def init_f64_def len_def item_def mask_defs
        del: f64_ops_del)
  then show "Wiener_f64 silent_engine_f64
       = Inr (silent_engine_f64\<lparr>mask_arr := ND (NDArray [1, 1] [Fin 1])\<rparr>)"
    by (simp only: c1 c2 c3 c4 c5)
  show "Fin 1 \<noteq> Fin (1 / 2)" by simp
  show "nResidual rows_engine = ND (sTarget rows_engine)"
    by (simp add: rows_engine_def init_f64_def)
  have u: "[Suc 0..<Suc (Suc 0)] = [Suc 0]" by (simp add: upt_rec)
  have "Wiener_f64 rows_engine
        = Inr (rows_engine\<lparr>mask_arr := ND (NDArray [2, 1]
            [fdiv (fadd (fsquare (Fin 1)) (Fin machine_eps))
                  (fadd (Fin machine_eps)
                     (fadd (fadd (fsquare (Fin 1)) (fsquare (Fin 1))) (fsquare (Fin 1)))),
             fdiv (fadd (fsquare (Fin 1)) (Fin machine_eps))
                  (fadd (Fin machine_eps)
                     (fadd (fadd (fsquare (Fin 1)) (fsquare (Fin 1))) (fsquare (Fin 1))))])\<rparr>)"
    by (simp add: Wiener_f64_def rows_engine_def init_f64_def len_def item_def iadd_f64_def u
        Let_def numeral_2_eq_2 mask_defs del: f64_ops_del)
  then show "Wiener_f64 rows_engine
       = Inr (rows_engine\<lparr>mask_arr := ND (NDArray [2, 1]
           [Fin (6004799503160663 / 2 ^ 54), Fin (6004799503160663 / 2 ^ 54)])\<rparr>)"
    by (simp only: r1 r2 r3 r4 r5 r6)
  show "Fin (6004799503160663 / 2 ^ 54) \<noteq> Fin (1 / 2)" by simp
qed
section \<open>The covariance matrices of the multichannel filter\<close>










section \<open>The loss of the exponent optimiser\<close>

lemma np_power_nonneg: "0 \<le> np_power x a"
  by (simp add: np_power_def)

lemma IS_elems:
  assumes "length ms = length xs" and "0 < c"
  shows "map (\<lambda>x. x - 1)
           (map2 (-) (map2 (/) (map (\<lambda>x. x + c) (map (\<lambda>x. np_power x a) (map abs ms)))
                               (map (\<lambda>x. \<bar>x\<bar> + c) xs))
                     (map2 (-) (map (\<lambda>x. ln (x + c)) (map (\<lambda>x. np_power x a) (map abs ms)))
                               (map (\<lambda>x. ln (\<bar>x\<bar> + c)) xs)))
       = map2 (\<lambda>m x. let r = (np_power \<bar>m\<bar> a + c) / (\<bar>x\<bar> + c) in r - ln r - 1) ms xs"
proof -
  have "ln ((np_power \<bar>m\<bar> a + c) / (\<bar>x\<bar> + c)) = ln (np_power \<bar>m\<bar> a + c) - ln (\<bar>x\<bar> + c)"
    for m x :: real
    using assms(2) np_power_nonneg [of "\<bar>m\<bar>" a] by (intro ln_divide_pos) linarith+
  then show ?thesis using assms(1)
    by (simp add: list_eq_iff_nth_eq Let_def)
qed

lemma IS_eq_formula:
  assumes "alpha e = scalar a" and "wf (mX e)" and "wf Xhat" and "shape Xhat = shape (mX e)"
    and "0 < eps e"
  shows "IS e Xhat = Inr (IS_formula (eps e) a (mX e) Xhat)"
proof -
  have len: "length (elems (mX e)) = length (elems Xhat)"
    using assms by (simp add: wf_def)
  show ?thesis
    using assms(1-4) len IS_elems [OF len assms(5), of a]
    by (simp add: IS_def IS_formula_def bind_def bop_scalar_r bop_same_shape wf_def uop_def)
qed


lemma additive_wf: "wf (hd srcs) \<Longrightarrow> wf (additive srcs a) \<and> shape (additive srcs a) = shape (hd srcs)"
  by (simp add: additive_def wf_def)

lemma is_term_strict_mono:
  assumes "1 \<le> r" and "r < s"
  shows "r - ln r - 1 < s - ln s - (1::real)"
proof -
  have pos: "0 < s / r" using assms by simp
  have ne: "s / r \<noteq> 1" using assms by simp
  have "ln (s / r) \<le> s / r - 1" using pos by (rule ln_le_minus_one)
  moreover have "ln (s / r) \<noteq> s / r - 1" using ln_eq_minus_one [OF pos] ne by blast
  ultimately have "ln (s / r) < s / r - 1" by simp
  also have "\<dots> = (s - r) / r" using assms by (simp add: field_simps)
  also have "\<dots> \<le> s - r"
    using assms mult_left_mono [of 1 r "s - r"] by (simp add: pos_divide_le_eq)
  finally have "ln s - ln r < s - r" using assms by (simp add: ln_divide_pos)
  then show ?thesis by simp
qed

lemma np_round_115: "np_round 115 = 115"
  by (simp add: np_round_def)

lemma c4_iter:
  "opt_iter c4_engine [sTarget c4_engine] 0 (opt_init c4_engine 1)
   = Inr (\<lparr> alpha_v = [115 / 100], lrs = [15 / 10000],
            i_s_loss = [IS_formula machine_eps 1 (NDArray [1, 1] [2]) (NDArray [1, 1] [0])],
            alpha_log = [[115 / 100]] \<rparr>, None)"
proof -
  have "IS c4_engine (sTarget c4_engine)
        = Inr (IS_formula (eps c4_engine) 1 (mX c4_engine) (sTarget c4_engine))"
    by (rule IS_eq_formula) (simp_all add: c4_engine_def init_def wf_def machine_eps_def)
  then have i: "IS c4_engine (sTarget c4_engine)
        = Inr (IS_formula machine_eps 1 (NDArray [1, 1] [2]) (NDArray [1, 1] [0]))"
    by (simp add: c4_engine_def init_def)
  have d: "x \<noteq> 0 \<Longrightarrow> d_loss c4_engine [sTarget c4_engine] [x] = Inr [0]" for x
    by (simp add: c4_engine_def init_def d_loss_def dIS_def additive_def np_mean_def
        bop_scalar_r bop_same_shape uop_def bind_def np_power_def)
  have a: "x \<noteq> 0 \<Longrightarrow> additive [sTarget c4_engine] [x] = sTarget c4_engine" for x
    by (simp add: c4_engine_def init_def additive_def np_power_def)
  have l: "lr c4_engine = 15 / 10000" by (simp add: c4_engine_def init_def)
  show ?thesis
    by (simp add: opt_iter_def opt_init_def d i a l bind_def np_clip_def np_round_def Let_def)
qed

lemma c4_differs:
  "IS_formula machine_eps 1 (NDArray [1, 1] [2]) (NDArray [1, 1] [0])
   \<noteq> IS_formula machine_eps (115 / 100) (NDArray [1, 1] [2]) (NDArray [1, 1] [0])"
proof -
  have p: "(2::real) < 2 powr (115 / 100)"
    using powr_less_mono [of 1 "115 / 100" "2::real"] by simp
  have e: "0 < machine_eps" by (simp add: machine_eps_def)
  let ?r = "(2 + machine_eps) / machine_eps"
  let ?s = "(2 powr (115 / 100) + machine_eps) / machine_eps"
  have "1 \<le> ?r" using e by (simp add: field_simps)
  moreover have "?r < ?s" using e p by (simp add: divide_strict_right_mono)
  ultimately have "?r - ln ?r - 1 < ?s - ln ?s - 1" by (rule is_term_strict_mono)
  then show ?thesis
    by (simp add: IS_formula_def np_mean_def np_power_def Let_def)
qed

text \<open>
  Claim C4, as the code has it. \<^verbatim>\<open>_IS\<close> raises the mixture to \<^verbatim>\<open>self._alpha\<close>, the
  exponent stored in the engine, which \<^verbatim>\<open>optAlpha\<close> does not change before its loop has
  ended. In every iteration the loss appended to the history is the mean of
  \<open>r - log r - 1\<close> with \<open>r = (|mixture| ** a + eps) / (|Xhat| + eps)\<close>, where \<open>a\<close> is that
  exponent of the engine and \<open>Xhat\<close> the additive model at the new iterate (the last entry
  of the exponent history). On the \<open>Stuck\<close> exit the entry is then overwritten by the
  least loss.
\<close>

theorem appended_loss_uses_engine_exponent:
  assumes "opt_iter e srcs i st = Inr (st', brk)"
    and "alpha e = scalar a" and "wf (mX e)" and "wf (hd srcs)"
    and "shape (hd srcs) = shape (mX e)" and "0 < eps e"
  shows "\<exists>ls. ls = i_s_loss st
                 @ [IS_formula (eps e) a (mX e) (additive srcs (last (alpha_log st')))]
            \<and> i_s_loss st' = (if brk = Some Stuck then ls[length ls - 1 := ls ! argmin ls] else ls)"
proof -
  have isf: "IS e (additive srcs b) = Inr (IS_formula (eps e) a (mX e) (additive srcs b))" for b
    using assms(2-6) additive_wf [of srcs b] by (intro IS_eq_formula) simp_all
  show ?thesis
    using assms(1)
    by (auto simp: opt_iter_def bind_def Let_def isf split: sum.splits if_splits)
qed

theorem appended_loss_uses_engine_exponent_witness:
  "i_s_loss (opt_init c4_engine 1)
     @ [IS_formula (eps c4_engine) 1 (mX c4_engine) (additive [sTarget c4_engine] [115 / 100])]
   = [IS_formula machine_eps 1 (NDArray [1, 1] [2]) (NDArray [1, 1] [0])]"
  using appended_loss_uses_engine_exponent [OF c4_iter, of 1]
  by (simp add: c4_engine_def init_def scalar_def wf_def machine_eps_def)

text \<open>
  Claim C4, as stated, fails. The engine has the exponent 1 and a mixture of one element,
  2. After the first iteration the exponent of the target is 1.15, and the loss appended
  is the one for the reference power \<open>2 ** 1\<close>, not for \<open>2 ** 1.15\<close>.
\<close>

theorem appended_loss_not_target_exponent:
  "opt_iter c4_engine [sTarget c4_engine] 0 (opt_init c4_engine 1)
   = Inr (\<lparr> alpha_v = [115 / 100], lrs = [15 / 10000],
            i_s_loss = [IS_formula machine_eps 1 (NDArray [1, 1] [2]) (NDArray [1, 1] [0])],
            alpha_log = [[115 / 100]] \<rparr>, None)
   \<and> IS_formula machine_eps 1 (NDArray [1, 1] [2]) (NDArray [1, 1] [0])
     \<noteq> IS_formula machine_eps (115 / 100) (NDArray [1, 1] [2]) (NDArray [1, 1] [0])"
  using c4_iter c4_differs by simp

section \<open>Runs of the exponent optimiser\<close>

lemma opt_iter_not_stuck:
  assumes "opt_iter e srcs i st = Inr (st', brk)" and "brk \<noteq> Some Stuck"
  shows "alpha_v st' = last (alpha_log st') \<and> i_s_loss st' \<noteq> []
       \<and> length (i_s_loss st') = Suc (length (i_s_loss st))"
  using assms
  by (auto simp: opt_iter_def bind_def Let_def split: sum.splits if_splits)

lemma opt_loop_exhausted:
  "opt_loop e srcs is st = Inr (st', Exhausted, k) \<Longrightarrow>
   k = last is \<and> is \<noteq> [] \<and> alpha_v st' = last (alpha_log st') \<and> i_s_loss st' \<noteq> []
   \<and> length (i_s_loss st') = length (i_s_loss st) + length is"
proof (induction "is" arbitrary: st)
  case Nil
  then show ?case by simp
next
  case (Cons i "is")
  from Cons.prems obtain st1 brk where it: "opt_iter e srcs i st = Inr (st1, brk)"
    by (auto simp: bind_def split: sum.splits)
  show ?case
  proof (cases brk)
    case None
    note ns = opt_iter_not_stuck [OF it]
    show ?thesis
    proof (cases "is = []")
      case True
      then show ?thesis using Cons.prems it None ns by (simp add: bind_def)
    next
      case False
      then have "opt_loop e srcs is st1 = Inr (st', Exhausted, k)"
        using Cons.prems it None by (simp add: bind_def)
      from Cons.IH [OF this] ns None False show ?thesis by simp
    qed
  next
    case (Some x)
    then have "x = Exhausted" and st: "st' = st1"
      using Cons.prems it by (simp_all add: bind_def)
    then show ?thesis
      using it Some by (auto simp: opt_iter_def bind_def Let_def split: sum.splits if_splits)
  qed
qed

lemma exhausted_commits_final_iterate:
  assumes "opt_run e = Inr (st, Exhausted, k)" and "optAlpha e initloss = Inr e'"
  shows "Suc k = iterations e \<and> length (i_s_loss st) = iterations e
       \<and> elems (alpha e') = last (alpha_log st) \<and> closs e' = Some (last (i_s_loss st))"
proof -
  from assms(1) obtain srcs where s: "sources e = Inr srcs"
    and l: "opt_loop e srcs [0..<iterations e] (opt_init e (length srcs)) = Inr (st, Exhausted, k)"
    and n: "iterations e \<noteq> 0"
    by (auto simp: opt_run_def bind_def split: sum.splits if_splits)
  note x = opt_loop_exhausted [OF l]
  have k: "Suc k = iterations e" using x n by (cases "iterations e") simp_all
  have len: "length (i_s_loss st) = iterations e" using x by (simp add: opt_init_def)
  have last: "from_end (i_s_loss st) 1 = last (i_s_loss st)"
    using x by (simp add: from_end_def last_conv_nth)
  have "elems (alpha e') = last (alpha_log st) \<and> closs e' = Some (last (i_s_loss st))"
    using assms(2) s assms(1) k x last
    by (auto simp: optAlpha_def bind_def Let_def split: sum.splits if_splits)
  with k len show ?thesis by simp
qed

lemma osc_fields:
  "sTarget osc_engine = NDArray [1, 2] [pw2 (- 20), pw2 320]"
  "mX osc_engine = NDArray [1, 2] [0, pw2 840]"
  "eps osc_engine = pw2 (- 52)" "alpha osc_engine = scalar 1" "lr osc_engine = 15 / 10000"
  "eta_plus osc_engine = 11 / 10" "eta_minus osc_engine = 1 / 10"
  "nResidual osc_engine = PyList []" "iterations osc_engine = 200"
  using pw2_neg_nat [of 20] pw2_nat [of 320] pw2_nat [of 840] pw2_neg_nat [of 52]
  by (simp_all add: osc_engine_def init_def machine_eps_def)

lemma ln2_ge_half: "1 / 2 \<le> ln (2::real)"
proof -
  have "exp (1 / 2 :: real) \<le> 1 + 1 / 2 + (1 / 2)\<^sup>2" by (rule exp_bound) simp_all
  also have "\<dots> \<le> (2::real)" by (simp add: power2_eq_square)
  finally have "exp (1 / 2 :: real) \<le> 2" .
  then have "ln (exp (1 / 2 :: real)) \<le> ln 2" by (subst ln_le_cancel_iff) simp_all
  then show ?thesis by simp
qed

lemma ln2_le_1: "ln (2::real) \<le> 1"
  using ln_2_less_1 by simp

lemma np_round_int: "np_round (of_int n) = of_int n"
  by (simp add: np_round_def)

lemma clip_low: "x \<le> 1 / 2 \<Longrightarrow> np_round (np_clip x (1 / 2) 2 * 100) / 100 = 1 / 2"
proof -
  assume "x \<le> 1 / 2"
  then have c: "np_clip x (1 / 2) 2 = 1 / 2" by (simp add: np_clip_def max_def min_def)
  show ?thesis unfolding c using np_round_int [of 50] by simp
qed

lemma clip_high: "2 \<le> x \<Longrightarrow> np_round (np_clip x (1 / 2) 2 * 100) / 100 = 2"
proof -
  assume "2 \<le> x"
  then have c: "np_clip x (1 / 2) 2 = 2" by (simp add: np_clip_def max_def min_def)
  show ?thesis unfolding c using np_round_int [of 200] by simp
qed

lemma np_power_pw2: "a \<noteq> 0 \<Longrightarrow> np_power (pw2 k) a = pw2 (k * a)"
  by (simp add: np_power_def pw2_powr)

lemma powr_m2: "0 < y \<Longrightarrow> np_power y (- 2) = 1 / y\<^sup>2"
  by (simp add: np_power_def powr_minus divide_inverse)

lemma osc_additive: "a \<noteq> 0 \<Longrightarrow> additive [sTarget osc_engine] [a] = osc_X a"
proof -
  assume a: "a \<noteq> 0"
  have u: "[0..<2] = [0, Suc 0]" by (simp add: upt_rec)
  show ?thesis
    by (simp add: osc_fields additive_def np_power_pw2 a u osc_X_def)
qed

lemma osc_dIS: "dIS osc_engine (osc_X a) = Inr (osc_P a)"
proof -
  have p: "0 < pw2 j + pw2 (- 52)" for j
    by (simp add: add_pos_pos)
  have a: "\<bar>pw2 j + pw2 (- 52)\<bar> = pw2 j + pw2 (- 52)" for j
    using p [of j] by simp
  show ?thesis
    using p
    by (simp add: dIS_def osc_fields bind_def bop_scalar_r bop_same_shape uop_def np_mean_def
        a powr_m2 osc_X_def osc_P_def) (simp add: np_power_def)
qed

lemma osc_mean_dX:
  "a \<noteq> 0 \<Longrightarrow>
   np_mean (uop (\<lambda>v. np_power v a * ln (v + eps osc_engine)) (sTarget osc_engine)) = osc_Q a"
  by (simp add: osc_fields uop_def np_mean_def np_power_pw2 osc_Q_def)

lemma osc_d_loss:
  "a \<noteq> 0 \<Longrightarrow> d_loss osc_engine [sTarget osc_engine] [a] = Inr [osc_P a * osc_Q a]"
  by (simp add: d_loss_def osc_additive osc_dIS bind_def osc_mean_dX)

lemma osc_IS:
  "a \<noteq> 0 \<Longrightarrow> IS osc_engine (additive [sTarget osc_engine] [a]) = Inr (osc_L a)"
proof -
  assume a: "a \<noteq> 0"
  have "IS osc_engine (osc_X a)
        = Inr (IS_formula (eps osc_engine) 1 (mX osc_engine) (osc_X a))"
    by (rule IS_eq_formula) (simp_all add: osc_fields osc_X_def wf_def)
  then show ?thesis by (simp add: osc_additive a osc_L_def)
qed

lemma pw2_sum_pos [simp]: "0 < pw2 a + pw2 b"
  by (simp add: add_pos_pos)

lemma pw2_sum_neq0 [simp]: "pw2 a + pw2 b \<noteq> 0"
  using pw2_sum_pos [of a b] by linarith

lemma ln_sum_ge: "ln (pw2 k + pw2 j) \<ge> k * ln 2"
proof -
  have "ln (pw2 k) \<le> ln (pw2 k + pw2 j)"
    by (subst ln_le_cancel_iff) (simp_all add: add_pos_pos)
  then show ?thesis by (simp add: ln_pw2)
qed

lemma osc_Q_lb:
  assumes "0 \<le> a"
  shows "pw2 (320 * a + 6) \<le> osc_Q a"
proof -
  define X1 where "X1 = pw2 (- 20 * a)"
  define X2 where "X2 = pw2 (320 * a)"
  define l1 where "l1 = ln (pw2 (- 20) + pw2 (- 52))"
  define l2 where "l2 = ln (pw2 320 + pw2 (- 52))"
  have l1: "- 20 \<le> l1"
    using ln_sum_ge [of "- 20" "- 52"] ln2_le_1 by (simp add: l1_def)
  have l2: "160 \<le> l2"
    using ln_sum_ge [of 320 "- 52"] ln2_ge_half by (simp add: l2_def)
  have x1: "X1 \<le> 1" "0 \<le> X1"
    using assms pw2_le [of "- 20 * a" 0] by (simp_all add: X1_def del: pw2_le)
  have x2: "1 \<le> X2" unfolding X2_def using assms by (intro pw2_ge1) simp
  have "X1 * (- 20) \<le> X1 * l1" using l1 x1 by (intro mult_left_mono) simp_all
  then have t1: "- 20 \<le> X1 * l1" using x1 by linarith
  have t2: "X2 * 160 \<le> X2 * l2" using l2 x2 by (intro mult_left_mono) simp_all
  have e: "pw2 (320 * a + 6) = 64 * X2"
    using pw2_nat [of 6] by (simp add: pw2_add [symmetric] X2_def)
  have q: "osc_Q a = (X1 * l1 + X2 * l2) / 2"
    by (simp add: osc_Q_def X1_def X2_def l1_def l2_def)
  show ?thesis unfolding q e using t1 t2 x2 by argo
qed

lemma T1_ub: "pw2 j / (pw2 j + pw2 (- 52))\<^sup>2 \<le> pw2 (- j)"
proof -
  have "pw2 j / (pw2 j + pw2 (- 52))\<^sup>2 \<le> pw2 j / (pw2 j)\<^sup>2"
    by (intro divide_left_mono power_mono mult_pos_pos) simp_all
  also have "\<dots> = pw2 (- j)" by (simp add: pw2_square pw2_divide)
  finally show ?thesis .
qed

lemma T2_ub:
  assumes "k \<le> 839" and "- 52 \<le> k"
  shows "(pw2 k - pw2 840) / (pw2 k + pw2 (- 52))\<^sup>2 \<le> - pw2 (837 - 2 * k)"
proof -
  have n: "pw2 k - pw2 840 \<le> - pw2 839"
  proof -
    have "pw2 840 = 2 * pw2 839" by (simp add: pw2_add [symmetric, of 1 839, simplified])
    moreover have "pw2 k \<le> pw2 839" using assms by simp
    ultimately show ?thesis by linarith
  qed
  have d: "(pw2 k + pw2 (- 52))\<^sup>2 \<le> pw2 (2 * k + 2)"
  proof -
    have "pw2 k + pw2 (- 52) \<le> pw2 (k + 1)"
      using pw2_sum_le [of "- 52" k] assms by (simp add: add.commute)
    then have "(pw2 k + pw2 (- 52))\<^sup>2 \<le> (pw2 (k + 1))\<^sup>2"
      by (intro power_mono) (simp_all add: add_nonneg_nonneg)
    then show ?thesis by (simp add: pw2_square algebra_simps)
  qed
  have p: "0 < (pw2 k + pw2 (- 52))\<^sup>2" by (simp add: add_pos_pos)
  have "(pw2 k - pw2 840) / (pw2 k + pw2 (- 52))\<^sup>2 \<le> (- pw2 839) / (pw2 k + pw2 (- 52))\<^sup>2"
    using n p by (intro divide_right_mono) simp_all
  also have "\<dots> = - (pw2 839 / (pw2 k + pw2 (- 52))\<^sup>2)" by simp
  also have "\<dots> \<le> - (pw2 839 / pw2 (2 * k + 2))"
    using d p by (simp add: divide_left_mono)
  also have "\<dots> = - pw2 (837 - 2 * k)" by (simp add: pw2_divide algebra_simps)
  finally show ?thesis .
qed

lemma osc_P_neg:
  assumes "0 \<le> a" and "a \<le> 5 / 4"
  shows "osc_P a \<le> - pw2 (835 - 640 * a)"
proof -
  define T1 where "T1 = pw2 (- 20 * a) / (pw2 (- 20 * a) + pw2 (- 52))\<^sup>2"
  define T2 where "T2 = (pw2 (320 * a) - pw2 840) / (pw2 (320 * a) + pw2 (- 52))\<^sup>2"
  define B where "B = pw2 (835 - 640 * a)"
  have t1: "T1 \<le> pw2 (20 * a)"
    using T1_ub [of "- 20 * a"] by (simp add: T1_def)
  have t2: "T2 \<le> - pw2 (837 - 640 * a)"
    using T2_ub [of "320 * a"] assms by (simp add: T2_def)
  have e: "pw2 (837 - 640 * a) = 4 * B"
    using pw2_add [of 2 "835 - 640 * a"] pw2_nat [of 2] by (simp add: algebra_simps B_def)
  have b: "pw2 (20 * a) \<le> B" "0 < B" using assms by (simp_all add: B_def)
  have p: "osc_P a = (T1 + T2) / 2" by (simp add: osc_P_def T1_def T2_def)
  show ?thesis unfolding p B_def [symmetric] using t1 t2 e b by argo
qed

lemma osc_P_2: "pw2 36 \<le> osc_P 2"
proof -
  have s: "pw2 (- 40) + pw2 (- 52) \<le> pw2 (- 39)"
    using pw2_sum_le [of "- 52" "- 40"] by (simp add: add.commute)
  then have "(pw2 (- 40) + pw2 (- 52))\<^sup>2 \<le> (pw2 (- 39))\<^sup>2"
    by (intro power_mono) (simp_all add: add_nonneg_nonneg)
  then have d: "(pw2 (- 40) + pw2 (- 52))\<^sup>2 \<le> pw2 (- 78)" by (simp add: pw2_square)
  have "pw2 (- 40) / pw2 (- 78) \<le> pw2 (- 40) / (pw2 (- 40) + pw2 (- 52))\<^sup>2"
    using d by (intro divide_left_mono mult_pos_pos) simp_all
  then have t1: "pw2 38 \<le> pw2 (- 40) / (pw2 (- 40) + pw2 (- 52))\<^sup>2"
    by (simp add: pw2_divide)
  have p: "0 < (pw2 640 + pw2 (- 52))\<^sup>2" by (simp add: add_pos_pos)
  have "(pw2 640)\<^sup>2 \<le> (pw2 640 + pw2 (- 52))\<^sup>2"
    by (intro power_mono) simp_all
  then have d2: "pw2 1280 \<le> (pw2 640 + pw2 (- 52))\<^sup>2" by (simp add: pw2_square)
  have "pw2 840 / (pw2 640 + pw2 (- 52))\<^sup>2 \<le> pw2 840 / pw2 1280"
    using d2 by (intro divide_left_mono mult_pos_pos) simp_all
  also have "\<dots> \<le> 1" using pw2_le [of "- 440" 0] by (simp add: pw2_divide del: pw2_le)
  finally have u: "pw2 840 / (pw2 640 + pw2 (- 52))\<^sup>2 \<le> 1" .
  have "(pw2 640 - pw2 840) / (pw2 640 + pw2 (- 52))\<^sup>2
        \<ge> (- pw2 840) / (pw2 640 + pw2 (- 52))\<^sup>2"
    using p by (intro divide_right_mono) simp_all
  then have t2: "- 1 \<le> (pw2 640 - pw2 840) / (pw2 640 + pw2 (- 52))\<^sup>2"
    using u by linarith
  have "pw2 38 = 4 * pw2 36" using pw2_add [of 2 36] pw2_nat [of 2] by simp
  moreover have "1 \<le> pw2 36" by (intro pw2_ge1) simp
  moreover have "osc_P 2 = (pw2 (- 40) / (pw2 (- 40) + pw2 (- 52))\<^sup>2
              + (pw2 640 - pw2 840) / (pw2 640 + pw2 (- 52))\<^sup>2) / 2"
    by (simp add: osc_P_def)
  ultimately show ?thesis using t1 t2 by argo
qed

lemma osc_d_2: "pw2 682 \<le> osc_P 2 * osc_Q 2"
proof -
  have "0 \<le> pw2 36" by simp
  then have "0 \<le> osc_P 2" using osc_P_2 by linarith
  then have "pw2 36 * pw2 646 \<le> osc_P 2 * osc_Q 2"
    using osc_P_2 osc_Q_lb [of 2] by (intro mult_mono) simp_all
  then show ?thesis by (simp add: pw2_add)
qed

lemma osc_d_neg:
  assumes "0 \<le> a" and "a \<le> 5 / 4"
  shows "osc_P a * osc_Q a \<le> - pw2 (841 - 320 * a)"
proof -
  have q: "pw2 (320 * a + 6) \<le> osc_Q a" using assms by (intro osc_Q_lb)
  have p: "osc_P a \<le> - pw2 (835 - 640 * a)" using assms by (intro osc_P_neg)
  have "0 < pw2 (835 - 640 * a)" by simp
  then have "0 \<le> - osc_P a" using p by linarith
  then have "pw2 (835 - 640 * a) * pw2 (320 * a + 6) \<le> (- osc_P a) * osc_Q a"
    using p q by (intro mult_mono) simp_all
  then show ?thesis by (simp add: pw2_add algebra_simps)
qed

lemma is_term_nonneg: "0 < r \<Longrightarrow> 0 \<le> is_term r"
  using ln_le_minus_one [of r] by (simp add: is_term_def)

lemma is_term_small:
  assumes "0 < r" and "r \<le> 1"
  shows "is_term r \<le> 1 / r"
proof -
  have "ln (1 / r) \<le> 1 / r - 1" using assms by (intro ln_le_minus_one) simp
  then have "- ln r \<le> 1 / r - 1" using assms by (simp add: ln_div)
  then show ?thesis using assms by (simp add: is_term_def)
qed

lemma is_term_diff:
  assumes "1 \<le> r" and "r \<le> s"
  shows "(s - r) * (1 - 1 / r) \<le> is_term s - is_term r"
proof -
  have pos: "0 < s / r" using assms by simp
  have "ln (s / r) \<le> s / r - 1" using pos by (rule ln_le_minus_one)
  then have "ln s - ln r \<le> (s - r) / r" using assms by (simp add: ln_divide_pos field_simps)
  moreover have "(s - r) * (1 - 1 / r) = (s - r) - (s - r) / r" by (simp add: algebra_simps)
  ultimately show ?thesis by (simp add: is_term_def)
qed

lemma osc_L_eq:
  "osc_L a = (is_term (pw2 (- 52) / (pw2 (- 20 * a) + pw2 (- 52)))
              + is_term ((pw2 840 + pw2 (- 52)) / (pw2 (320 * a) + pw2 (- 52)))) / 2"
  by (simp add: osc_L_def osc_fields osc_X_def IS_formula_def np_mean_def np_power_def
      is_term_def Let_def)

lemma osc_L_gap: "osc_L 2 + 1 \<le> osc_L (1 / 2)"
proof -
  define r1t where "r1t = pw2 (- 52) / (pw2 (- 40) + pw2 (- 52))"
  define r1h where "r1h = pw2 (- 52) / (pw2 (- 10) + pw2 (- 52))"
  define r where "r = (pw2 840 + pw2 (- 52)) / (pw2 640 + pw2 (- 52))"
  define s where "s = (pw2 840 + pw2 (- 52)) / (pw2 160 + pw2 (- 52))"
  have L2: "osc_L 2 = (is_term r1t + is_term r) / 2"
    by (simp add: osc_L_eq r1t_def r_def)
  have Lh: "osc_L (1 / 2) = (is_term r1h + is_term s) / 2"
    by (simp add: osc_L_eq r1h_def s_def)
  have a: "0 \<le> is_term r1h"
    by (intro is_term_nonneg) (simp add: r1h_def)
  have "is_term r1t \<le> 1 / r1t"
    by (intro is_term_small) (simp_all add: r1t_def)
  also have "\<dots> = pw2 12 + 1"
    by (simp add: r1t_def add_divide_distrib pw2_divide)
  finally have b: "is_term r1t \<le> pw2 12 + 1" .
  have r2: "2 \<le> r"
  proof -
    have "pw2 641 + pw2 (- 51) \<le> pw2 642" using pw2_sum_le [of "- 51" 641] by (simp add: add.commute)
    moreover have "pw2 642 \<le> pw2 840" by simp
    moreover have "2 * (pw2 640 + pw2 (- 52)) = pw2 641 + pw2 (- 51)"
      using pw2_add [of 1 640] pw2_add [of 1 "- 52"] by simp
    ultimately have "2 * (pw2 640 + pw2 (- 52)) \<le> pw2 840 + pw2 (- 52)"
      using pw2_pos [of "- 52"] by linarith
    then show ?thesis by (simp add: r_def pos_le_divide_eq)
  qed
  have ru: "r \<le> pw2 201"
  proof -
    have "pw2 840 + pw2 (- 52) \<le> pw2 841" using pw2_sum_le [of "- 52" 840] by (simp add: add.commute)
    then have "r \<le> pw2 841 / (pw2 640 + pw2 (- 52))"
      unfolding r_def by (intro divide_right_mono) simp_all
    also have "\<dots> \<le> pw2 841 / pw2 640"
      by (intro divide_left_mono mult_pos_pos) simp_all
    also have "\<dots> = pw2 201" by (simp add: pw2_divide)
    finally show ?thesis .
  qed
  have sl: "pw2 679 \<le> s"
  proof -
    have d: "pw2 160 + pw2 (- 52) \<le> pw2 161" using pw2_sum_le [of "- 52" 160] by (simp add: add.commute)
    have "pw2 679 = pw2 840 / pw2 161" by (simp add: pw2_divide)
    also have "\<dots> \<le> pw2 840 / (pw2 160 + pw2 (- 52))"
      using d by (intro divide_left_mono mult_pos_pos) simp_all
    also have "\<dots> \<le> s"
      unfolding s_def by (intro divide_right_mono) simp_all
    finally show ?thesis .
  qed
  have g: "pw2 678 \<le> s - r"
  proof -
    have "pw2 679 = 2 * pw2 678" using pw2_add [of 1 678] by simp
    moreover have "pw2 201 \<le> pw2 678" by simp
    ultimately show ?thesis using sl ru by linarith
  qed
  have h: "1 / 2 \<le> 1 - 1 / r"
  proof -
    have "1 / r \<le> 1 / 2" using r2 by (intro divide_left_mono) simp_all
    then show ?thesis by linarith
  qed
  have rs: "r \<le> s" "0 \<le> s - r" using g pw2_pos [of 678] by linarith+
  have "pw2 678 * (1 / 2) \<le> (s - r) * (1 - 1 / r)"
    using g h rs by (intro mult_mono) simp_all
  also have "\<dots> \<le> is_term s - is_term r"
    using r2 rs by (intro is_term_diff) linarith+
  finally have c: "pw2 678 / 2 \<le> is_term s - is_term r" by simp
  have "pw2 678 = 2 * pw2 677" using pw2_add [of 1 677] by simp
  moreover have "pw2 13 = 2 * pw2 12" using pw2_add [of 1 12] by simp
  moreover have "pw2 13 \<le> pw2 677" by simp
  moreover have "4 \<le> pw2 12" using pw2_le [of 2 12] pw2_nat [of 2] by (simp del: pw2_le)
  ultimately show ?thesis unfolding L2 Lh using a b c by argo
qed

lemma single_iter:
  assumes "alpha_v st = [a]" and "lrs st = [l]"
    and "d_loss e srcs [a] = Inr [d]"
    and "np_round (np_clip (a - l * d) (1 / 2) 2 * 100) / 100 = b"
    and "IS e (additive srcs [b]) = Inr L"
  shows "opt_iter e srcs i st =
     (let log2 = (if alpha_log st = [] then [] else butlast (alpha_log st) @ [[a - l * d]]) @ [[b]];
          ls = i_s_loss st @ [L] in
        if i > 2 then
          let rates = rprop e ls [l] in
          if i > 4 \<and> \<bar>from_end ls 2 - from_end ls 1\<bar> < 1 / 10 ^ 4
                   \<and> \<bar>from_end ls 3 - from_end ls 2\<bar> < 1 / 10 ^ 4
          then if from_end ls 1 > 3 / 10
               then Inr (\<lparr> alpha_v = py_index_pred log2 (argmin ls), lrs = rates,
                           i_s_loss = ls[length ls - 1 := ls ! argmin ls],
                           alpha_log = log2 \<rparr>, Some Stuck)
               else Inr (\<lparr> alpha_v = [b], lrs = rates, i_s_loss = ls, alpha_log = log2 \<rparr>,
                         Some LocalMinimum)
          else Inr (\<lparr> alpha_v = [b], lrs = rates, i_s_loss = ls, alpha_log = log2 \<rparr>, None)
        else Inr (\<lparr> alpha_v = [b], lrs = [l], i_s_loss = ls, alpha_log = log2 \<rparr>, None))"
  using assms by (simp add: opt_iter_def bind_def Let_def)

lemma from_end_snoc1: "from_end (xs @ [x]) (Suc 0) = x"
  by (simp add: from_end_def)

lemma from_end_snoc2: "xs \<noteq> [] \<Longrightarrow> from_end (xs @ [x]) 2 = last xs"
  by (simp add: from_end_def nth_append last_conv_nth)

lemma ten_pow: "(10::real) ^ 202 \<le> pw2 681"
proof -
  have "(10::real) ^ 202 \<le> 10 ^ 204" by (intro power_increasing) simp_all
  also have "\<dots> = (1000::real) ^ 68" by (simp add: power_mult [symmetric, of 10 3 68, simplified])
  also have "\<dots> \<le> (1024::real) ^ 68" by (intro power_mono) simp_all
  also have "\<dots> = 2 ^ 680" by (simp add: power_mult [symmetric, of 2 10 68, simplified])
  also have "\<dots> = pw2 680" using pw2_nat [of 680] by simp
  also have "\<dots> \<le> pw2 681" by simp
  finally show ?thesis .
qed

lemma osc_a_neq0: "osc_a k \<noteq> 0"
  by (simp add: osc_a_def)

lemma osc_a_Suc: "osc_a (Suc k) = (if osc_a k = 2 then 1 / 2 else 2)"
  by (simp add: osc_a_def)

lemma osc_L_far: "1 \<le> \<bar>osc_L (osc_a k) - osc_L (osc_a (Suc k))\<bar>"
  using osc_L_gap by (simp add: osc_a_def)

lemma osc_big_step:
  assumes "15 / 10000 * (1 / 10) ^ n \<le> l" and "n \<le> 199" and "pw2 681 \<le> D"
  shows "3 / 2 \<le> l * D"
proof -
  define U where "U = (1 / 10 :: real) ^ 199"
  define V where "V = (10 :: real) ^ 199"
  define T where "T = (10 :: real) ^ 202"
  have U: "0 < U" by (simp add: U_def)
  have T: "0 < T" by (simp add: T_def)
  have "(10::real) ^ (199 + 3) = 10 ^ 199 * 10 ^ 3" by (rule power_add)
  then have TV: "T = V * 1000" unfolding T_def V_def by simp
  have "(1 / 10 :: real) ^ 199 * 10 ^ 199 = (1 / 10 * 10) ^ 199"
    by (rule power_mult_distrib [symmetric])
  then have UV: "U * V = 1" unfolding U_def V_def by simp
  have UT: "U * T = 1000" unfolding TV using UV by (simp add: mult.assoc [symmetric])
  have "U \<le> (1 / 10) ^ n"
    unfolding U_def using assms(2) by (intro power_decreasing) simp_all
  then have l: "15 / 10000 * U \<le> l" using assms(1) by linarith
  have D: "T \<le> D" using ten_pow assms(3) unfolding T_def by linarith
  have "0 \<le> 15 / 10000 * U" using U by simp
  then have l0: "0 \<le> l" using l by linarith
  have m: "(15 / 10000 * U) * T \<le> l * D"
    using l D U T l0 by (intro mult_mono) simp_all
  have "(15 / 10000 * U) * T = 15 / 10000 * (U * T)" by simp
  also have "\<dots> = 3 / 2" unfolding UT by simp
  finally show ?thesis using m by linarith
qed

lemma osc_next:
  assumes "15 / 10000 * (1 / 10) ^ n \<le> l" and "n \<le> 199"
  shows "np_round (np_clip (osc_a k - l * (osc_P (osc_a k) * osc_Q (osc_a k))) (1 / 2) 2 * 100)
           / 100 = osc_a (Suc k)"
proof (cases "even k")
  case True
  have "pw2 681 \<le> pw2 682" by simp
  then have "pw2 681 \<le> osc_P 2 * osc_Q 2" using osc_d_2 by linarith
  from osc_big_step [OF assms this] have "2 - l * (osc_P 2 * osc_Q 2) \<le> 1 / 2" by linarith
  then show ?thesis using True by (simp add: osc_a_def clip_low)
next
  case False
  have "osc_P (1 / 2) * osc_Q (1 / 2) \<le> - pw2 681" using osc_d_neg [of "1 / 2"] by simp
  then have "pw2 681 \<le> - (osc_P (1 / 2) * osc_Q (1 / 2))" by linarith
  from osc_big_step [OF assms this] have "2 \<le> 1 / 2 - l * (osc_P (1 / 2) * osc_Q (1 / 2))"
    by linarith
  then show ?thesis using False by (simp add: osc_a_def clip_high)
qed

lemma osc_step:
  assumes inv: "osc_inv n st" and n1: "1 \<le> n" and n2: "n \<le> 199"
  shows "\<exists>st'. opt_iter osc_engine [sTarget osc_engine] n st = Inr (st', None)
               \<and> osc_inv (Suc n) st'"
proof -
  from inv obtain l where l: "lrs st = [l]" "15 / 10000 * (1 / 10) ^ n \<le> l"
      "n \<le> 3 \<longrightarrow> l = 15 / 10000"
    and av: "alpha_v st = [osc_a (n - 1)]"
    and len: "length (i_s_loss st) = n" "length (alpha_log st) = n"
    and ls: "\<forall>k < n. i_s_loss st ! k = osc_L (osc_a k)"
    and lg: "2 \<le> n \<longrightarrow> alpha_log st ! 0 = [2 - 15 / 10000 * (osc_P 2 * osc_Q 2)]"
    by (auto simp: osc_inv_def)
  define a where "a = osc_a (n - 1)"
  define b where "b = osc_a n"
  define d where "d = osc_P a * osc_Q a"
  have sn: "Suc (n - 1) = n" using n1 by simp
  have b: "np_round (np_clip (a - l * d) (1 / 2) 2 * 100) / 100 = b"
    unfolding a_def b_def d_def using osc_next [OF l(2) n2, of "n - 1"] sn by simp
  have lpos: "0 < l"
  proof -
    have "0 < 15 / 10000 * (1 / 10 :: real) ^ n" by simp
    then show ?thesis using l(2) by linarith
  qed
  have ne: "i_s_loss st \<noteq> []" "alpha_log st \<noteq> []" using len n1 by auto
  have lastl: "last (i_s_loss st) = osc_L a"
    using ls len n1 ne by (simp add: last_conv_nth a_def)
  have far: "1 \<le> \<bar>osc_L a - osc_L b\<bar>"
    unfolding a_def b_def using osc_L_far [of "n - 1"] sn by simp
  have a0: "a \<noteq> 0" and b0: "b \<noteq> 0" by (simp_all add: a_def b_def osc_a_neq0)
  have nf: "\<not> \<bar>osc_L a - osc_L b\<bar> < 1 / 10 ^ 4" using far by simp
  define l' where "l' = (if n > 2 then (if osc_L a - osc_L b > 0 then l * (11 / 10) else l * (1 / 10))
                         else l)"
  define ls' where "ls' = i_s_loss st @ [osc_L b]"
  define log2 where "log2 = butlast (alpha_log st) @ [[a - l * d]] @ [[b]]"
  define st' where "st' = \<lparr> alpha_v = [b], lrs = [l'], i_s_loss = ls', alpha_log = log2 \<rparr>"
  have rp: "rprop osc_engine (i_s_loss st @ [osc_L b]) [l]
            = [if osc_L a - osc_L b > 0 then l * (11 / 10) else l * (1 / 10)]"
    using far ne by (auto simp: rprop_def from_end_snoc1 from_end_snoc2 lastl osc_fields Let_def)
  note it0 = single_iter [where i = n, OF av [folded a_def] l(1) osc_d_loss [OF a0, folded d_def] b
      osc_IS [OF b0]]
  have it: "opt_iter osc_engine [sTarget osc_engine] n st = Inr (st', None)"
    unfolding it0 Let_def rp using nf ne
    by (simp add: from_end_snoc1 from_end_snoc2 lastl st'_def l'_def ls'_def log2_def)
  have l'b: "15 / 10000 * (1 / 10) ^ Suc n \<le> l'"
  proof -
    have "l * (1 / 10) \<le> l'" using lpos by (simp add: l'_def)
    moreover have "15 / 10000 * (1 / 10) ^ Suc n \<le> l * (1 / 10)" using l(2) by simp
    ultimately show ?thesis by linarith
  qed
  have l'e: "Suc n \<le> 3 \<longrightarrow> l' = 15 / 10000" using l(3) by (simp add: l'_def)
  have losses: "\<forall>k < Suc n. ls' ! k = osc_L (osc_a k)"
    using ls len by (auto simp: ls'_def nth_append less_Suc_eq b_def)
  have log0: "2 \<le> Suc n \<longrightarrow> log2 ! 0 = [2 - 15 / 10000 * (osc_P 2 * osc_Q 2)]"
  proof (cases "n = 1")
    case True
    then have "butlast (alpha_log st) = []" using len by (cases "alpha_log st") auto
    moreover have "a = 2" "l = 15 / 10000" using True l(3) by (simp_all add: a_def osc_a_def)
    ultimately show ?thesis by (simp add: log2_def d_def)
  next
    case False
    then have "2 \<le> n" using n1 by linarith
    then have bl: "0 < length (butlast (alpha_log st))" using len by simp
    then have "butlast (alpha_log st) ! 0 = alpha_log st ! 0" "butlast (alpha_log st) \<noteq> []"
      by (simp_all add: nth_butlast del: length_butlast)
    then show ?thesis using lg \<open>2 \<le> n\<close> bl by (simp add: log2_def nth_append)
  qed
  have "osc_inv (Suc n) st'"
    using l'b l'e losses log0 len n1
    by (simp add: osc_inv_def st'_def b_def ls'_def log2_def)
  with it show ?thesis by blast
qed

lemma osc_first:
  "\<exists>st'. opt_iter osc_engine [sTarget osc_engine] 0 (opt_init osc_engine 1) = Inr (st', None)
         \<and> osc_inv 1 st'"
proof -
  define d where "d = osc_P (23 / 20) * osc_Q (23 / 20)"
  have "d \<le> - pw2 473" unfolding d_def using osc_d_neg [of "23 / 20"] by simp
  moreover have "1024 \<le> pw2 473" using pw2_le [of 10 473] pw2_nat [of 10] by (simp del: pw2_le)
  ultimately have "2 \<le> 23 / 20 - 15 / 10000 * d" by linarith
  then have b: "np_round (np_clip (23 / 20 - 15 / 10000 * d) (1 / 2) 2 * 100) / 100 = 2"
    by (rule clip_high)
  have av: "alpha_v (opt_init osc_engine 1) = [23 / 20]"
    and lr: "lrs (opt_init osc_engine 1) = [15 / 10000]"
    by (simp_all add: opt_init_def osc_fields)
  note it0 = single_iter [where i = 0, OF av lr osc_d_loss [of "23 / 20", folded d_def, simplified]
      b osc_IS [of 2, simplified]]
  define st' where "st' = \<lparr> alpha_v = [2], lrs = [15 / 10000], i_s_loss = [osc_L 2],
                          alpha_log = [[2]] \<rparr>"
  have "opt_iter osc_engine [sTarget osc_engine] 0 (opt_init osc_engine 1) = Inr (st', None)"
    unfolding it0 by (simp add: opt_init_def st'_def)
  moreover have "osc_inv 1 st'"
    unfolding osc_inv_def st'_def
    by (intro conjI exI [of _ "15 / 10000"]) (simp_all add: osc_a_def)
  ultimately show ?thesis by blast
qed

lemma osc_loop:
  assumes "osc_inv n st" and "1 \<le> n" and "n \<le> 199"
  shows "\<exists>st'. opt_loop osc_engine [sTarget osc_engine] [n..<200] st = Inr (st', Exhausted, 199)
               \<and> osc_inv 200 st'"
  using assms
proof (induction "199 - n" arbitrary: n st)
  case 0
  then have n: "n = 199" by simp
  from osc_step [OF "0.prems"] obtain st' where
    s: "opt_iter osc_engine [sTarget osc_engine] n st = Inr (st', None)" "osc_inv (Suc n) st'"
    by blast
  have "[n..<200] = [n]" using n by (simp add: upt_rec)
  then show ?case using s n by (auto simp: bind_def)
next
  case (Suc m)
  then have n: "n < 199" by simp
  from osc_step [OF Suc.prems] obtain st1 where
    s: "opt_iter osc_engine [sTarget osc_engine] n st = Inr (st1, None)" "osc_inv (Suc n) st1"
    by blast
  have m: "m = 199 - Suc n" using Suc.hyps(2) by simp
  from Suc.hyps(1) [OF m s(2)] n obtain st' where
    l: "opt_loop osc_engine [sTarget osc_engine] [Suc n..<200] st1 = Inr (st', Exhausted, 199)"
      "osc_inv 200 st'"
    by auto
  have u: "[n..<200] = n # [Suc n..<200]" and ne: "[Suc n..<200] \<noteq> []"
    using n by (simp_all add: upt_conv_Cons)
  show ?case unfolding u using s l ne by (auto simp: bind_def)
qed

lemma osc_sources: "sources osc_engine = Inr [sTarget osc_engine]"
  by (simp add: sources_def osc_fields bind_def)

lemma osc_run:
  "\<exists>st. opt_run osc_engine = Inr (st, Exhausted, 199) \<and> osc_inv 200 st"
proof -
  from osc_first obtain st1 where
    f: "opt_iter osc_engine [sTarget osc_engine] 0 (opt_init osc_engine 1) = Inr (st1, None)"
      "osc_inv 1 st1"
    by blast
  from osc_loop [OF f(2)] obtain st where
    l: "opt_loop osc_engine [sTarget osc_engine] [1..<200] st1 = Inr (st, Exhausted, 199)"
      "osc_inv 200 st"
    by auto
  have u: "[0..<200] = 0 # [1..<200]" and ne: "[1..<200] \<noteq> []"
    by (simp_all add: upt_conv_Cons)
  have "opt_loop osc_engine [sTarget osc_engine] [0..<200] (opt_init osc_engine 1)
        = Inr (st, Exhausted, 199)"
    unfolding u using f l ne by (simp add: bind_def)
  then have "opt_run osc_engine = Inr (st, Exhausted, 199)"
    by (simp add: opt_run_def osc_sources bind_def) (simp add: osc_fields)
  with l(2) show ?thesis by blast
qed

lemma argmin_first:
  assumes "xs \<noteq> []" and "\<forall>k < length xs. xs ! 0 \<le> xs ! k"
  shows "argmin xs = 0"
proof (cases xs)
  case Nil
  then show ?thesis using assms by simp
next
  case (Cons x ys)
  have "\<forall>y \<in> set ys. x \<le> y"
  proof
    fix y assume "y \<in> set ys"
    then obtain k where "k < length ys" "ys ! k = y" by (auto simp: in_set_conv_nth)
    then show "x \<le> y" using assms(2) Cons by (auto dest: spec [of _ "Suc k"])
  qed
  then show ?thesis using Cons by simp
qed

lemma osc_optAlpha:
  assumes "opt_run osc_engine = Inr (st, Exhausted, 199)" and "alpha_v st = [1 / 2]"
  shows "\<exists>e'. optAlpha osc_engine 0 = Inr e' \<and> elems (alpha e') = [1 / 2]
              \<and> closs e' = Some (from_end (i_s_loss st) 1)"
proof -
  have x: "additive [sTarget osc_engine] [1 / 2] = osc_X (1 / 2)"
    by (rule osc_additive) simp
  have "\<exists>m. bop (/) (uop (\<lambda>v. np_power v (1 / 2) + eps osc_engine) (sTarget osc_engine))
                     (uop (\<lambda>v. v + eps osc_engine) (osc_X (1 / 2))) = Inr m"
    by (subst bop_same_shape) (simp_all add: uop_def osc_fields osc_X_def wf_def)
  then obtain m where m: "bop (/) (uop (\<lambda>v. np_power v (1 / 2) + eps osc_engine) (sTarget osc_engine))
                     (uop (\<lambda>v. v + eps osc_engine) (osc_X (1 / 2))) = Inr m"
    by blast
  have i: "iterations osc_engine = 200" by (simp add: osc_fields)
  have "optAlpha osc_engine 0
        = Inr (osc_engine\<lparr> closs := Some (from_end (i_s_loss st) 1),
                            alpha := NDArray [1] [1 / 2],
                            amount_iter := 199, mask_arr := ND m \<rparr>)"
    unfolding optAlpha_def osc_sources assms(1) bind_def Let_def
    by (simp add: assms(2) x m i)
  then show ?thesis by simp
qed

text \<open>
  Claim C1. After the loop the source tests \<^verbatim>\<open>iter_index == self._iterations\<close>, but the
  last value of \<^verbatim>\<open>iter_index\<close> in \<^verbatim>\<open>range(200)\<close> is 199: the branch that picks the
  entry of least loss never runs, and a run that exhausts the iterations commits the
  exponent and the loss of the final iteration. On \<open>osc_engine\<close> the loop runs all 200
  iterations without the early exit; the least loss of the history is at index 0, the
  final loss is larger, and the exponent committed is the final one, 0.5, which is not the
  entry of the exponent history at the index of the least loss.
\<close>

theorem exhausted_run_commits_last_not_best:
  "\<exists>st e'. opt_run osc_engine = Inr (st, Exhausted, 199)
         \<and> optAlpha osc_engine 0 = Inr e'
         \<and> length (i_s_loss st) = 200
         \<and> argmin (i_s_loss st) = 0
         \<and> i_s_loss st ! argmin (i_s_loss st) < last (i_s_loss st)
         \<and> elems (alpha e') = [1 / 2]
         \<and> alpha_log st ! argmin (i_s_loss st) \<noteq> [1 / 2]
         \<and> closs e' = Some (last (i_s_loss st))"
proof -
  from osc_run obtain st where r: "opt_run osc_engine = Inr (st, Exhausted, 199)"
    and inv: "osc_inv 200 st" by blast
  from inv have av: "alpha_v st = [1 / 2]"
    and len: "length (i_s_loss st) = 200"
    and ls: "\<forall>k < 200. i_s_loss st ! k = osc_L (osc_a k)"
    and lg: "alpha_log st ! 0 = [2 - 15 / 10000 * (osc_P 2 * osc_Q 2)]"
    by (simp_all add: osc_inv_def osc_a_def)
  from osc_optAlpha [OF r av] obtain e' where o: "optAlpha osc_engine 0 = Inr e'"
    and el: "elems (alpha e') = [1 / 2]"
    and cl: "closs e' = Some (from_end (i_s_loss st) 1)" by blast
  have gap: "osc_L 2 < osc_L (1 / 2)" using osc_L_gap by linarith
  have l0: "i_s_loss st ! 0 = osc_L 2" using ls by (simp add: osc_a_def)
  have ge: "\<forall>k < length (i_s_loss st). i_s_loss st ! 0 \<le> i_s_loss st ! k"
  proof (intro allI impI)
    fix k assume "k < length (i_s_loss st)"
    then have "i_s_loss st ! k = osc_L (osc_a k)" using ls len by simp
    then show "i_s_loss st ! 0 \<le> i_s_loss st ! k"
      using gap l0 by (cases "even k") (simp_all add: osc_a_def)
  qed
  have ne: "i_s_loss st \<noteq> []" using len by auto
  have am: "argmin (i_s_loss st) = 0"
    using ne ge by (rule argmin_first)
  have l199: "i_s_loss st ! 199 = osc_L (1 / 2)" using ls by (simp add: osc_a_def)
  have last: "last (i_s_loss st) = osc_L (1 / 2)"
    using len ne l199 by (simp add: last_conv_nth)
  have fe: "from_end (i_s_loss st) 1 = last (i_s_loss st)"
    using len ne by (simp add: from_end_def last_conv_nth)
  have "pw2 10 \<le> osc_P 2 * osc_Q 2" using osc_d_2 pw2_le [of 10 682] by (simp del: pw2_le)
  then have "1024 \<le> osc_P 2 * osc_Q 2" using pw2_nat [of 10] by simp
  then have "2 - 15 / 10000 * (osc_P 2 * osc_Q 2) \<noteq> 1 / 2" by linarith
  then have nl: "alpha_log st ! 0 \<noteq> [1 / 2]" using lg by simp
  have "opt_run osc_engine = Inr (st, Exhausted, 199)
         \<and> optAlpha osc_engine 0 = Inr e'
         \<and> length (i_s_loss st) = 200
         \<and> argmin (i_s_loss st) = 0
         \<and> i_s_loss st ! argmin (i_s_loss st) < last (i_s_loss st)
         \<and> elems (alpha e') = [1 / 2]
         \<and> alpha_log st ! argmin (i_s_loss st) \<noteq> [1 / 2]
         \<and> closs e' = Some (last (i_s_loss st))"
    unfolding am last using r o len l0 gap el nl cl fe last by simp
  then show ?thesis by blast
qed

section \<open>A run that ends in the stagnation exit\<close>

lemma ln2_gt: "11 / 16 < ln (2::real)"
proof -
  have "exp (11 / 1024 :: real) \<le> 1 + 11 / 1024 + (11 / 1024)\<^sup>2"
    by (rule exp_bound) simp_all
  then have b: "exp (11 / 1024 :: real) \<le> 1059961 / 1048576"
    by (simp add: power2_eq_square)
  have "exp (11 / 16 :: real) = exp (of_nat 64 * (11 / 1024))" by simp
  also have "\<dots> = exp (11 / 1024) ^ 64" by (rule exp_of_nat_mult)
  also have "\<dots> \<le> (1059961 / 1048576) ^ 64"
    using b by (intro power_mono) simp_all
  also have "\<dots> < 2" by (simp add: power_divide)
  finally have "exp (11 / 16 :: real) < 2" .
  then have "ln (exp (11 / 16 :: real)) < ln 2" by (subst ln_less_cancel_iff) simp_all
  then show ?thesis by simp
qed

lemma ln2_lt: "ln (2::real) < 6985 / 10000"
proof -
  have "1 + 1397 / 16000 + (1397 / 16000)\<^sup>2 / 2 \<le> exp (1397 / 16000 :: real)"
    by (rule exp_lower_Taylor_quadratic) simp
  then have b: "558655609 / 512000000 \<le> exp (1397 / 16000 :: real)"
    by (simp add: power2_eq_square)
  have "(2::real) < (558655609 / 512000000) ^ 8" by (simp add: power_divide)
  also have "\<dots> \<le> exp (1397 / 16000) ^ 8"
    using b by (intro power_mono) simp_all
  also have "\<dots> = exp (of_nat 8 * (1397 / 16000 :: real))" by (rule exp_of_nat_mult [symmetric])
  also have "\<dots> = exp (6985 / 10000)" by simp
  finally have "(2::real) < exp (6985 / 10000)" .
  then have "ln (2::real) < ln (exp (6985 / 10000))" by (subst ln_less_cancel_iff) simp_all
  then show ?thesis by simp
qed

lemma stk_fields:
  "sTarget stuck_engine = NDArray [1, 1] [pw2 375]"
  "mX stuck_engine = NDArray [1, 1] [1]"
  "eps stuck_engine = pw2 (- 52)" "alpha stuck_engine = scalar 1" "lr stuck_engine = 15 / 10000"
  "eta_plus stuck_engine = 11 / 10" "eta_minus stuck_engine = 1 / 10"
  "nResidual stuck_engine = PyList []" "iterations stuck_engine = 200"
  using pw2_nat [of 375] pw2_neg_nat [of 52]
  by (simp_all add: stuck_engine_def init_def machine_eps_def)

lemma stk_additive: "a \<noteq> 0 \<Longrightarrow> additive [sTarget stuck_engine] [a] = stk_X a"
  by (simp add: stk_fields additive_def np_power_pw2 stk_X_def)

lemma stk_dIS:
  "dIS stuck_engine (stk_X a) = Inr ((pw2 (375 * a) - 1) / (pw2 (375 * a) + pw2 (- 52))\<^sup>2)"
proof -
  have a: "\<bar>pw2 j + pw2 (- 52)\<bar> = pw2 j + pw2 (- 52)" for j
    using pw2_sum_pos [of j "- 52"] by simp
  show ?thesis
    by (simp add: dIS_def stk_fields bind_def bop_scalar_r bop_same_shape uop_def np_mean_def
        a powr_m2 stk_X_def) (simp add: np_power_def)
qed

lemma stk_mean_dX:
  "a \<noteq> 0 \<Longrightarrow>
   np_mean (uop (\<lambda>v. np_power v a * ln (v + eps stuck_engine)) (sTarget stuck_engine))
   = pw2 (375 * a) * ln (pw2 375 + pw2 (- 52))"
  by (simp add: stk_fields uop_def np_mean_def np_power_pw2)

lemma stk_d_loss:
  "a \<noteq> 0 \<Longrightarrow> d_loss stuck_engine [sTarget stuck_engine] [a] = Inr [stk_d a]"
  by (simp add: d_loss_def stk_additive stk_dIS bind_def stk_mean_dX stk_d_def)

lemma stk_IS:
  "a \<noteq> 0 \<Longrightarrow> IS stuck_engine (additive [sTarget stuck_engine] [a]) = Inr (stk_L a)"
proof -
  assume a: "a \<noteq> 0"
  have "IS stuck_engine (stk_X a)
        = Inr (IS_formula (eps stuck_engine) 1 (mX stuck_engine) (stk_X a))"
    by (rule IS_eq_formula) (simp_all add: stk_fields stk_X_def wf_def)
  also have "IS_formula (eps stuck_engine) 1 (mX stuck_engine) (stk_X a) = stk_L a"
    by (simp add: stk_fields stk_X_def IS_formula_def np_mean_def np_power_def is_term_def
        stk_L_def Let_def)
  finally show ?thesis by (simp add: stk_additive a)
qed

lemma stk_d_bounds:
  assumes "1 / 2 \<le> a"
  shows "2575 / 10 < stk_d a \<and> stk_d a < 263"
proof -
  define X where "X = pw2 (375 * a)"
  define e where "e = pw2 (- 52)"
  define G where "G = ln (pw2 375 + pw2 (- 52))"
  define F where "F = (X - 1) / (X + e)\<^sup>2 * X"
  have X: "4096 \<le> X"
    using pw2_le [of 12 "375 * a"] pw2_nat [of 12] assms by (simp add: X_def del: pw2_le)
  have e: "0 < e" "e \<le> 1"
    using pw2_le [of "- 52" 0] by (simp_all add: e_def del: pw2_le)
  have d: "stk_d a = F * G"
    by (simp add: stk_d_def X_def e_def G_def F_def)
  have pos: "0 < (X + e)\<^sup>2" using X e by simp
  have Fe: "F = ((X - 1) * X) / (X + e)\<^sup>2" by (simp add: F_def)
  define Q where "Q = X * X"
  define P where "P = e * X"
  define R where "R = e * e"
  have sq: "(X + e)\<^sup>2 = Q + 2 * P + R"
    by (simp add: power2_eq_square algebra_simps Q_def P_def R_def)
  have num: "(X - 1) * X = Q - X" by (simp add: algebra_simps Q_def)
  have eX: "P \<le> X" "0 \<le> P" using e X by (simp_all add: mult_le_cancel_right2 P_def)
  have ee: "R \<le> 1" "0 \<le> R" using e by (simp_all add: mult_le_one R_def)
  have XX: "4096 * X \<le> Q" unfolding Q_def using X by (intro mult_right_mono) simp_all
  have up: "(X - 1) * X \<le> (X + e)\<^sup>2"
    unfolding sq num using eX ee X by argo
  have lo: "999 * (X + e)\<^sup>2 \<le> 1000 * ((X - 1) * X)"
    unfolding sq num using eX ee XX X by argo
  have F1: "F \<le> 1" unfolding Fe using up pos by (simp add: divide_le_eq)
  have F2: "999 / 1000 \<le> F" unfolding Fe using lo pos by (simp add: le_divide_eq)
  have G1: "375 * ln 2 \<le> G" unfolding G_def using ln_sum_ge [of 375 "- 52"] by simp
  have G2: "G \<le> 376 * ln 2"
  proof -
    have "pw2 375 + pw2 (- 52) \<le> pw2 376"
      using pw2_sum_le [of "- 52" 375] by (simp add: add.commute)
    then have "ln (pw2 375 + pw2 (- 52)) \<le> ln (pw2 376)"
      by (subst ln_le_cancel_iff) simp_all
    then show ?thesis by (simp add: G_def ln_pw2)
  qed
  have G0: "0 \<le> G" using G1 ln2_gt by linarith
  have "F * G \<le> 1 * G" using F1 G0 by (intro mult_right_mono)
  then have u: "F * G < 263" using G2 ln2_lt by linarith
  have "999 / 1000 * G \<le> F * G" using F2 G0 by (intro mult_right_mono)
  then have l: "2575 / 10 < F * G" using G1 ln2_gt by linarith
  show ?thesis unfolding d using u l by simp
qed

lemma np_round_76:
  assumes "151 / 2 < x" and "x < 153 / 2"
  shows "np_round x = 76"
proof (cases "x < 76")
  case True
  then have "\<lfloor>x\<rfloor> = 75" using assms by (intro floor_unique) simp_all
  then show ?thesis using assms by (simp add: np_round_def)
next
  case False
  then have "\<lfloor>x\<rfloor> = 76" using assms by (intro floor_unique) simp_all
  then show ?thesis using assms by (simp add: np_round_def)
qed

lemma is_term_antimono:
  assumes "0 < r" and "r < s" and "s \<le> 1"
  shows "is_term s < is_term r"
proof -
  have pos: "0 < r / s" using assms by simp
  have ne: "r / s \<noteq> 1" using assms by simp
  have "ln (r / s) \<le> r / s - 1" using pos by (rule ln_le_minus_one)
  moreover have "ln (r / s) \<noteq> r / s - 1" using ln_eq_minus_one [OF pos] ne by blast
  ultimately have "ln (r / s) < r / s - 1" by simp
  then have a: "ln r - ln s < r / s - 1" using assms by (simp add: ln_divide_pos)
  define D where "D = (s - r) / s"
  have "(s - r) * 1 \<le> (s - r) * (1 / s)"
    using assms by (intro mult_left_mono) (simp_all add: le_divide_eq)
  then have D: "s - r \<le> D" by (simp add: D_def)
  have "r / s - 1 = - D" using assms by (simp add: D_def field_simps)
  then show ?thesis using a D by (simp add: is_term_def)
qed

lemma stk_L_gap: "stk_L (1 / 2) < stk_L (76 / 100)"
proof -
  have e: "0 < pw2 (- 52)" by simp
  have "pw2 (375 / 2) < pw2 285" by simp
  then have "(1 + pw2 (- 52)) / (pw2 285 + pw2 (- 52)) < (1 + pw2 (- 52)) / (pw2 (375 / 2) + pw2 (- 52))"
    using e by (intro divide_strict_left_mono mult_pos_pos) (simp_all add: add_pos_pos)
  moreover have "(1 + pw2 (- 52)) / (pw2 (375 / 2) + pw2 (- 52)) \<le> 1"
    using pw2_ge1 [of "375 / 2"] by simp
  moreover have "0 < (1 + pw2 (- 52)) / (pw2 285 + pw2 (- 52))"
    using e by (simp add: add_pos_pos)
  ultimately show ?thesis
    unfolding stk_L_def using is_term_antimono by simp
qed

lemma stk_L_big: "3 / 10 < stk_L (1 / 2)"
proof -
  define r where "r = (1 + pw2 (- 52)) / (pw2 (375 / 2) + pw2 (- 52))"
  have e: "0 < pw2 (- 52)" "pw2 (- 52) \<le> 1"
    using pw2_le [of "- 52" 0] by (simp_all del: pw2_le)
  have r0: "0 < r" unfolding r_def using e by (simp add: add_pos_pos)
  have "pw2 (373 / 2) * (1 + pw2 (- 52)) \<le> pw2 (373 / 2) * 2"
    using e by (intro mult_left_mono) simp_all
  also have "\<dots> = pw2 (375 / 2)" using pw2_add [of "373 / 2" 1] by simp
  also have "\<dots> \<le> pw2 (375 / 2) + pw2 (- 52)" by simp
  finally have "pw2 (373 / 2) \<le> 1 / r"
    unfolding r_def using e by (simp add: le_divide_eq add_pos_pos)
  then have "ln (pw2 (373 / 2)) \<le> ln (1 / r)" by (subst ln_le_cancel_iff) (simp_all add: r0)
  then have "373 / 2 * ln 2 \<le> - ln r" using r0 by (simp add: ln_pw2 ln_div)
  then have "100 \<le> - ln r" using ln2_gt by linarith
  then have "3 / 10 < is_term r" using r0 by (simp add: is_term_def)
  then show ?thesis by (simp add: stk_L_def r_def)
qed

lemma stk_b0: "np_round (np_clip (stk_raw (23 / 20)) (1 / 2) 2 * 100) / 100 = 76 / 100"
proof -
  have d: "2575 / 10 < stk_d (23 / 20)" "stk_d (23 / 20) < 263"
    using stk_d_bounds [of "23 / 20"] by simp_all
  have r: "755 / 1000 < stk_raw (23 / 20)" "stk_raw (23 / 20) < 765 / 1000"
    using d by (simp_all add: stk_raw_def)
  then have c: "np_clip (stk_raw (23 / 20)) (1 / 2) 2 = stk_raw (23 / 20)"
    by (simp add: np_clip_def max_def min_def)
  have "np_round (stk_raw (23 / 20) * 100) = 76"
    using r by (intro np_round_76) simp_all
  then show ?thesis unfolding c by simp
qed

lemma stk_raw1: "stk_raw (76 / 100) < 2 / 5"
  using stk_d_bounds [of "76 / 100"] by (simp add: stk_raw_def)

lemma stk_raw2: "stk_raw (1 / 2) < 1 / 5"
  using stk_d_bounds [of "1 / 2"] by (simp add: stk_raw_def)

lemma stk_b1: "np_round (np_clip (stk_raw (76 / 100)) (1 / 2) 2 * 100) / 100 = 1 / 2"
  using stk_raw1 by (intro clip_low) simp

lemma stk_b2: "np_round (np_clip (stk_raw (1 / 2)) (1 / 2) 2 * 100) / 100 = 1 / 2"
  using stk_raw2 by (intro clip_low) simp

lemma stk_iter_a:
  assumes "a \<noteq> 0" and "np_round (np_clip (stk_raw a) (1 / 2) 2 * 100) / 100 = b" and "b \<noteq> 0"
  shows "opt_iter stuck_engine [sTarget stuck_engine] i (stk_st a ls lg) =
     (let log2 = (if lg = [] then [] else butlast lg @ [[stk_raw a]]) @ [[b]];
          ls = ls @ [stk_L b] in
        if i > 2 then
          let rates = rprop stuck_engine ls [15 / 10000] in
          if i > 4 \<and> \<bar>from_end ls 2 - from_end ls 1\<bar> < 1 / 10 ^ 4
                   \<and> \<bar>from_end ls 3 - from_end ls 2\<bar> < 1 / 10 ^ 4
          then if from_end ls 1 > 3 / 10
               then Inr (\<lparr> alpha_v = py_index_pred log2 (argmin ls), lrs = rates,
                           i_s_loss = ls[length ls - 1 := ls ! argmin ls],
                           alpha_log = log2 \<rparr>, Some Stuck)
               else Inr (\<lparr> alpha_v = [b], lrs = rates, i_s_loss = ls, alpha_log = log2 \<rparr>,
                         Some LocalMinimum)
          else Inr (\<lparr> alpha_v = [b], lrs = rates, i_s_loss = ls, alpha_log = log2 \<rparr>, None)
        else Inr (\<lparr> alpha_v = [b], lrs = [15 / 10000], i_s_loss = ls, alpha_log = log2 \<rparr>, None))"
proof -
  have av: "alpha_v (stk_st a ls lg) = [a]" and lr: "lrs (stk_st a ls lg) = [15 / 10000]"
    by (simp_all add: stk_st_def)
  have b: "np_round (np_clip (a - 15 / 10000 * stk_d a) (1 / 2) 2 * 100) / 100 = b"
    using assms(2) by (simp add: stk_raw_def)
  show ?thesis
    using single_iter [where i = i, OF av lr stk_d_loss [OF assms(1)] b stk_IS [OF assms(3)]]
    by (simp add: stk_st_def stk_raw_def)
qed

lemma stk_it0:
  "opt_iter stuck_engine [sTarget stuck_engine] 0 (opt_init stuck_engine 1)
   = Inr (stk_st (76 / 100) [stk_L (76 / 100)] [[76 / 100]], None)"
proof -
  have "opt_init stuck_engine 1 = stk_st (23 / 20) [] []"
    by (simp add: opt_init_def stk_st_def stk_fields)
  then show ?thesis
    using stk_iter_a [where i = 0 and a = "23 / 20" and ls = "[]" and lg = "[]", OF _ stk_b0]
    by (simp add: stk_st_def)
qed

lemma stk_it1:
  "opt_iter stuck_engine [sTarget stuck_engine] 1 (stk_st (76 / 100) [stk_L (76 / 100)] [[76 / 100]])
   = Inr (stk_st (1 / 2) [stk_L (76 / 100), stk_L (1 / 2)] [[stk_raw (76 / 100)], [1 / 2]], None)"
  using stk_iter_a [where i = 1 and a = "76 / 100" and ls = "[stk_L (76 / 100)]"
      and lg = "[[76 / 100]]", OF _ stk_b1]
  by (simp add: stk_st_def)

lemma stk_it2:
  "opt_iter stuck_engine [sTarget stuck_engine] 2
     (stk_st (1 / 2) [stk_L (76 / 100), stk_L (1 / 2)] [[stk_raw (76 / 100)], [1 / 2]])
   = Inr (stk_st (1 / 2) [stk_L (76 / 100), stk_L (1 / 2), stk_L (1 / 2)]
            [[stk_raw (76 / 100)], [stk_raw (1 / 2)], [1 / 2]], None)"
  using stk_iter_a [where i = 2 and a = "1 / 2" and ls = "[stk_L (76 / 100), stk_L (1 / 2)]"
      and lg = "[[stk_raw (76 / 100)], [1 / 2]]", OF _ stk_b2]
  by (simp add: stk_st_def)

lemma stk_it3:
  "opt_iter stuck_engine [sTarget stuck_engine] 3
     (stk_st (1 / 2) [stk_L (76 / 100), stk_L (1 / 2), stk_L (1 / 2)]
            [[stk_raw (76 / 100)], [stk_raw (1 / 2)], [1 / 2]])
   = Inr (stk_st (1 / 2) [stk_L (76 / 100), stk_L (1 / 2), stk_L (1 / 2), stk_L (1 / 2)]
            [[stk_raw (76 / 100)], [stk_raw (1 / 2)], [stk_raw (1 / 2)], [1 / 2]], None)"
  using stk_iter_a [where i = 3 and a = "1 / 2"
      and ls = "[stk_L (76 / 100), stk_L (1 / 2), stk_L (1 / 2)]"
      and lg = "[[stk_raw (76 / 100)], [stk_raw (1 / 2)], [1 / 2]]", OF _ stk_b2]
  by (simp add: stk_st_def rprop_def from_end_def Let_def)

lemma stk_it4:
  "opt_iter stuck_engine [sTarget stuck_engine] 4
     (stk_st (1 / 2) [stk_L (76 / 100), stk_L (1 / 2), stk_L (1 / 2), stk_L (1 / 2)]
            [[stk_raw (76 / 100)], [stk_raw (1 / 2)], [stk_raw (1 / 2)], [1 / 2]])
   = Inr (stk_st (1 / 2)
            [stk_L (76 / 100), stk_L (1 / 2), stk_L (1 / 2), stk_L (1 / 2), stk_L (1 / 2)]
            [[stk_raw (76 / 100)], [stk_raw (1 / 2)], [stk_raw (1 / 2)], [stk_raw (1 / 2)],
             [1 / 2]], None)"
  using stk_iter_a [where i = 4 and a = "1 / 2"
      and ls = "[stk_L (76 / 100), stk_L (1 / 2), stk_L (1 / 2), stk_L (1 / 2)]"
      and lg = "[[stk_raw (76 / 100)], [stk_raw (1 / 2)], [stk_raw (1 / 2)], [1 / 2]]",
      OF _ stk_b2]
  by (simp add: stk_st_def rprop_def from_end_def Let_def)

lemma stk_it5:
  "opt_iter stuck_engine [sTarget stuck_engine] 5
     (stk_st (1 / 2)
            [stk_L (76 / 100), stk_L (1 / 2), stk_L (1 / 2), stk_L (1 / 2), stk_L (1 / 2)]
            [[stk_raw (76 / 100)], [stk_raw (1 / 2)], [stk_raw (1 / 2)], [stk_raw (1 / 2)],
             [1 / 2]])
   = Inr (stk_st (stk_raw (76 / 100))
            [stk_L (76 / 100), stk_L (1 / 2), stk_L (1 / 2), stk_L (1 / 2), stk_L (1 / 2),
             stk_L (1 / 2)]
            [[stk_raw (76 / 100)], [stk_raw (1 / 2)], [stk_raw (1 / 2)], [stk_raw (1 / 2)],
             [stk_raw (1 / 2)], [1 / 2]], Some Stuck)"
  using stk_iter_a [where i = 5 and a = "1 / 2"
      and ls = "[stk_L (76 / 100), stk_L (1 / 2), stk_L (1 / 2), stk_L (1 / 2), stk_L (1 / 2)]"
      and lg = "[[stk_raw (76 / 100)], [stk_raw (1 / 2)], [stk_raw (1 / 2)], [stk_raw (1 / 2)],
                 [1 / 2]]", OF _ stk_b2]
    stk_L_gap stk_L_big
  by (simp add: stk_st_def rprop_def from_end_def py_index_pred_def Let_def)

lemma stk_sources: "sources stuck_engine = Inr [sTarget stuck_engine]"
  by (simp add: sources_def stk_fields bind_def)

lemma loop_continue:
  "opt_iter e srcs i st = Inr (st', None) \<Longrightarrow> is \<noteq> [] \<Longrightarrow>
   opt_loop e srcs (i # is) st = opt_loop e srcs is st'"
  by (simp add: bind_def)

lemma loop_break:
  "opt_iter e srcs i st = Inr (st', Some x) \<Longrightarrow> opt_loop e srcs (i # is) st = Inr (st', x, i)"
  by (simp add: bind_def)

lemma stk_run: "opt_run stuck_engine = Inr (stk_final, Stuck, 5)"
proof -
  define r where "r = [6..<200]"
  have u: "[0..<200] = 0 # 1 # 2 # 3 # 4 # 5 # r"
    unfolding r_def by (simp add: upt_rec)
  have "opt_loop stuck_engine [sTarget stuck_engine] (0 # 1 # 2 # 3 # 4 # 5 # r)
          (opt_init stuck_engine 1)
        = opt_loop stuck_engine [sTarget stuck_engine] (1 # 2 # 3 # 4 # 5 # r)
            (stk_st (76 / 100) [stk_L (76 / 100)] [[76 / 100]])"
    by (rule loop_continue [OF stk_it0]) simp
  also have "\<dots> = opt_loop stuck_engine [sTarget stuck_engine] (2 # 3 # 4 # 5 # r)
      (stk_st (1 / 2) [stk_L (76 / 100), stk_L (1 / 2)] [[stk_raw (76 / 100)], [1 / 2]])"
    by (rule loop_continue [OF stk_it1]) simp
  also have "\<dots> = opt_loop stuck_engine [sTarget stuck_engine] (3 # 4 # 5 # r)
      (stk_st (1 / 2) [stk_L (76 / 100), stk_L (1 / 2), stk_L (1 / 2)]
            [[stk_raw (76 / 100)], [stk_raw (1 / 2)], [1 / 2]])"
    by (rule loop_continue [OF stk_it2]) simp
  also have "\<dots> = opt_loop stuck_engine [sTarget stuck_engine] (4 # 5 # r)
      (stk_st (1 / 2) [stk_L (76 / 100), stk_L (1 / 2), stk_L (1 / 2), stk_L (1 / 2)]
            [[stk_raw (76 / 100)], [stk_raw (1 / 2)], [stk_raw (1 / 2)], [1 / 2]])"
    by (rule loop_continue [OF stk_it3]) simp
  also have "\<dots> = opt_loop stuck_engine [sTarget stuck_engine] (5 # r)
      (stk_st (1 / 2)
            [stk_L (76 / 100), stk_L (1 / 2), stk_L (1 / 2), stk_L (1 / 2), stk_L (1 / 2)]
            [[stk_raw (76 / 100)], [stk_raw (1 / 2)], [stk_raw (1 / 2)], [stk_raw (1 / 2)],
             [1 / 2]])"
    by (rule loop_continue [OF stk_it4]) simp
  also have "\<dots> = Inr (stk_final, Stuck, 5)"
    unfolding stk_final_def by (rule loop_break [OF stk_it5])
  finally have l: "opt_loop stuck_engine [sTarget stuck_engine] [0..<200] (opt_init stuck_engine 1)
        = Inr (stk_final, Stuck, 5)"
    unfolding u .
  have i: "iterations stuck_engine = 200" "length (shape (sTarget stuck_engine)) = 2"
    by (simp_all add: stk_fields)
  show ?thesis
    unfolding opt_run_def stk_sources bind_def using l i by simp
qed

lemma stk_argmin: "argmin (i_s_loss stk_final) = 1"
  using stk_L_gap by (simp add: stk_final_def stk_st_def)

lemma stk_optAlpha:
  "\<exists>m. optAlpha stuck_engine 0
       = Inr (stuck_engine\<lparr> closs := Some (stk_L (1 / 2)),
                            alpha := NDArray [1] [stk_raw (76 / 100)],
                            amount_iter := 5, mask_arr := ND m \<rparr>)"
proof -
  define a where "a = stk_raw (76 / 100)"
  have av: "alpha_v stk_final = [a]" by (simp add: stk_final_def stk_st_def a_def)
  have w: "wf (additive [sTarget stuck_engine] [a])"
      "shape (additive [sTarget stuck_engine] [a]) = [1, 1]"
    by (simp_all add: additive_def stk_fields wf_def)
  have "\<exists>m. bop (/) (uop (\<lambda>v. np_power v a + eps stuck_engine) (sTarget stuck_engine))
                     (uop (\<lambda>v. v + eps stuck_engine) (additive [sTarget stuck_engine] [a]))
             = Inr m"
    using w by (subst bop_same_shape) (simp_all add: uop_def stk_fields wf_def)
  then obtain m where m: "bop (/) (uop (\<lambda>v. np_power v a + eps stuck_engine) (sTarget stuck_engine))
                     (uop (\<lambda>v. v + eps stuck_engine) (additive [sTarget stuck_engine] [a]))
             = Inr m"
    by blast
  have i: "iterations stuck_engine = 200" by (simp add: stk_fields)
  have l: "from_end (i_s_loss stk_final) (Suc 0) = stk_L (1 / 2)"
    by (simp add: stk_final_def stk_st_def from_end_def)
  have "optAlpha stuck_engine 0
        = Inr (stuck_engine\<lparr> closs := Some (stk_L (1 / 2)), alpha := NDArray [1] [a],
                            amount_iter := 5, mask_arr := ND m \<rparr>)"
    unfolding optAlpha_def stk_sources stk_run bind_def Let_def
    by (simp add: av m i l)
  then show ?thesis unfolding a_def by blast
qed

text \<open>
  Claim C3. On the \<open>Stuck\<close> exit the source takes \<^verbatim>\<open>alpha_log[np.argmin(i_s_loss) - 1]\<close>,
  the entry before the one of least loss (and the last entry when the least loss is the
  first), and that entry has been changed in place by the gradient step of the iteration
  after it. On \<open>stuck_engine\<close> the loop stops at iteration 5 with a terminal loss above
  0.3; the least loss is at index 1; the exponent committed is the entry at index 0, which
  differs from the entry at index 1 and lies below 0.5, the lower bound every iterate is
  clipped to. The loss committed is the least loss.
\<close>

theorem stuck_commits_entry_before_argmin:
  "\<exists>st e'. opt_run stuck_engine = Inr (st, Stuck, 5)
        \<and> optAlpha stuck_engine 0 = Inr e'
        \<and> 3 / 10 < last (i_s_loss st)
        \<and> argmin (i_s_loss st) = 1
        \<and> elems (alpha e') = alpha_log st ! 0
        \<and> elems (alpha e') \<noteq> alpha_log st ! argmin (i_s_loss st)
        \<and> hd (elems (alpha e')) < 2 / 5
        \<and> closs e' = Some (i_s_loss st ! argmin (i_s_loss st))"
proof -
  from stk_optAlpha obtain m where
    o: "optAlpha stuck_engine 0
       = Inr (stuck_engine\<lparr> closs := Some (stk_L (1 / 2)),
                            alpha := NDArray [1] [stk_raw (76 / 100)],
                            amount_iter := 5, mask_arr := ND m \<rparr>)"
    by blast
  have ne: "stk_raw (76 / 100) \<noteq> stk_raw (1 / 2)"
  proof -
    have "stk_d (76 / 100) < 263" using stk_d_bounds [of "76 / 100"] by simp
    then have "1 / 5 < stk_raw (76 / 100)" by (simp add: stk_raw_def)
    then show ?thesis using stk_raw2 by linarith
  qed
  show ?thesis
    apply (rule exI [of _ stk_final])
    apply (rule exI [of _ "stuck_engine\<lparr> closs := Some (stk_L (1 / 2)),
                            alpha := NDArray [1] [stk_raw (76 / 100)],
                            amount_iter := 5, mask_arr := ND m \<rparr>"])
    using stk_run o stk_argmin stk_L_big stk_raw1 ne
    by (simp add: stk_final_def stk_st_def)
qed

end
